theory Spec2Isabelle
  imports
    Complex_Main
    "HOL-Library.Word"
    "HOL-Library.Multiset"
    "HOL-Library.Char_ord"
    "HOL-Library.List_Lexorder"
begin

section \<open>Python values: exceptions, strings, paths\<close>

text \<open>
  Every fallible operation of the downloader returns an \<open>outcome\<close>: either the value it
  returns or the exception it raises. A \<^verbatim>\<open>try: ... except Exception\<close> block is a
  case distinction on the outcome of its body.
\<close>

datatype exn =
    UnidentifiedImageError
  | ZeroDivisionError
  | ConnectionError
  | HTTPError nat
  | OSError
  | FileNotFoundError
  | ValueError
  | WebDriverException
  | ConversionError

datatype 'a outcome = Returns 'a | Raises exn

type_synonym byte = "8 word"

text \<open>\<^verbatim>\<open>str.lower()\<close> on the ASCII letters; every other character is left alone.\<close>

definition lower_char :: "char \<Rightarrow> char" where
  "lower_char c =
     (case map_of (zip ''ABCDEFGHIJKLMNOPQRSTUVWXYZ'' ''abcdefghijklmnopqrstuvwxyz'') c of
        Some l \<Rightarrow> l
      | None \<Rightarrow> c)"

definition lower :: "string \<Rightarrow> string" where
  "lower s = map lower_char s"

text \<open>\<^verbatim>\<open>s.split(c)\<close> for a one-character separator: the result is never empty.\<close>

fun split_chr :: "char \<Rightarrow> string \<Rightarrow> string list" where
  "split_chr c [] = [[]]"
| "split_chr c (x # xs) =
     (if x = c then [] # split_chr c xs
      else (case split_chr c xs of
              w # ws \<Rightarrow> (x # w) # ws
            | [] \<Rightarrow> [[x]]))"

text \<open>\<^verbatim>\<open>s.endswith(suffixes)\<close> with a tuple of suffixes.\<close>

definition endswith :: "string \<Rightarrow> string list \<Rightarrow> bool" where
  "endswith s suffixes = (\<exists>t \<in> set suffixes. take (length t) (rev s) = rev t)"

text \<open>\<^verbatim>\<open>str(n)\<close> for a natural number, and the format \<^verbatim>\<open>f"{n:03d}"\<close>: the decimal digits,
  padded with zeros on the left to at least three characters.\<close>

definition digit_char :: "nat \<Rightarrow> char" where
  "digit_char d = ''0123456789'' ! d"

fun str_nat :: "nat \<Rightarrow> string" where
  "str_nat n = (if n < 10 then [digit_char n] else str_nat (n div 10) @ [digit_char (n mod 10)])"

definition fmt03d :: "nat \<Rightarrow> string" where
  "fmt03d n = replicate (3 - length (str_nat n)) (CHR ''0'') @ str_nat n"

text \<open>\<^verbatim>\<open>os.path.join(a, b)\<close>, \<^verbatim>\<open>os.path.splitext(p)[1]\<close> and \<^verbatim>\<open>os.path.basename(p)\<close>
  with the POSIX separator. \<open>splitext\<close> looks at the last component only, and a name made of
  leading dots alone has no extension.\<close>

definition path_join :: "string \<Rightarrow> string \<Rightarrow> string" where
  "path_join a b =
     (if b \<noteq> [] \<and> hd b = CHR ''/'' then b
      else if a = [] \<or> last a = CHR ''/'' then a @ b
      else a @ ''/'' @ b)"

definition basename :: "string \<Rightarrow> string" where
  "basename p = rev (takeWhile (\<lambda>c. c \<noteq> CHR ''/'') (rev p))"

definition splitext_ext :: "string \<Rightarrow> string" where
  "splitext_ext p =
     (let name = basename p;
          after_dot = rev (takeWhile (\<lambda>c. c \<noteq> CHR ''.'') (rev name));
          before_dot = take (length name - length after_dot - 1) name
      in if CHR ''.'' \<in> set name \<and> (\<exists>c \<in> set before_dot. c \<noteq> CHR ''.'')
         then CHR ''.'' # after_dot
         else [])"

section \<open>The environment\<close>

text \<open>
  What the program reads from outside is a parameter of the model:
  \<^item> \<open>requests_get url referer\<close> is \<^verbatim>\<open>requests.get(url, headers={'Referer': referer})\<close>:
    a response, or the transport error raised;
  \<^item> \<open>image_open data\<close> is \<^verbatim>\<open>Image.open(io.BytesIO(data)).size\<close>: width and height, or
    the exception raised for a buffer that is not an image;
  \<^item> \<open>open_write path\<close> is \<^verbatim>\<open>open(path, 'w')\<close>: it raises, or it returns and the file
    exists and is empty;
  \<^item> \<open>write_data path data\<close> is the write to the open file and its closing at the end of
    the \<^verbatim>\<open>with\<close> block: \<open>None\<close> when all of \<open>data\<close> is stored, or the exception raised and
    the number of bytes that reached the file before it;
  \<^item> \<open>makedirs path\<close> is \<^verbatim>\<open>os.makedirs(path, exist_ok=True)\<close>;
  \<^item> \<open>urljoin base url\<close> is \<^verbatim>\<open>urllib.parse.urljoin\<close>;
  \<^item> \<open>initialize_browser\<close> is \<^verbatim>\<open>initialize_browser_with_nsfw()\<close>, \<open>driver_quit\<close> is
    \<^verbatim>\<open>driver.quit()\<close>;
  \<^item> \<open>browse url\<close> is the browser session on a chapter page: the \<^verbatim>\<open>src\<close> attributes of
    the elements matching \<^verbatim>\<open>img.w-full.h-full\<close> and of those matching \<^verbatim>\<open>main img\<close>, in
    page order, and what reading \<^verbatim>\<open>driver.page_source\<close> gives; or the exception the driver
    raised.
  A file system is a map from paths to file contents.
\<close>

record response =
  status_code :: nat
  content :: "byte list"

record page =
  primary_images :: "string option list"
  fallback_images :: "string option list"
  page_source :: "byte list outcome"

record world =
  requests_get :: "string \<Rightarrow> string \<Rightarrow> response outcome"
  image_open :: "byte list \<Rightarrow> (nat \<times> nat) outcome"
  open_write :: "string \<Rightarrow> unit outcome"
  write_data :: "string \<Rightarrow> byte list \<Rightarrow> (exn \<times> nat) option"
  makedirs :: "string \<Rightarrow> unit outcome"
  urljoin :: "string \<Rightarrow> string \<Rightarrow> string"
  initialize_browser :: "unit outcome"
  browse :: "string \<Rightarrow> page outcome"
  driver_quit :: "unit outcome"

type_synonym fs = "string \<rightharpoonup> byte list"

text \<open>
  \<^verbatim>\<open>with open(path, 'w') as f: f.write(data)\<close>. Opening creates the file or empties it.
  The argument of \<^verbatim>\<open>f.write\<close> is evaluated next and may raise; the file is empty then.
  A write that raises leaves the bytes written so far.
\<close>

definition write_file ::
  "world \<Rightarrow> string \<Rightarrow> byte list outcome \<Rightarrow> fs \<Rightarrow> unit outcome \<times> fs" where
  "write_file w path data files =
     (case open_write w path of
        Raises e \<Rightarrow> (Raises e, files)
      | Returns _ \<Rightarrow>
          (case data of
             Raises e \<Rightarrow> (Raises e, files(path \<mapsto> []))
           | Returns bytes \<Rightarrow>
               (case write_data w path bytes of
                  Some (e, written) \<Rightarrow> (Raises e, files(path \<mapsto> take written bytes))
                | None \<Rightarrow> (Returns (), files(path \<mapsto> bytes)))))"

text \<open>\<^verbatim>\<open>response.raise_for_status()\<close>: client and server error codes raise.\<close>

definition raise_for_status :: "response \<Rightarrow> unit outcome" where
  "raise_for_status r =
     (if 400 \<le> status_code r \<and> status_code r < 600 then Raises (HTTPError (status_code r))
      else Returns ())"

section \<open>\<^verbatim>\<open>is_valid_manga_image\<close>\<close>

text \<open>Python's true division raises on a zero divisor.\<close>

definition truediv :: "nat \<Rightarrow> nat \<Rightarrow> rat outcome" where
  "truediv a b = (if b = 0 then Raises ZeroDivisionError else Returns (of_nat a / of_nat b))"

text \<open>
  The body of the \<^verbatim>\<open>try\<close> block. The quotients are exact rationals here; Python
  computes them in binary floating point, which decides the comparisons below the same
  way for every image whose sides are below \<open>10\<^sup>1\<^sup>5\<close> pixels.
\<close>

definition is_valid_manga_image_try ::
  "world \<Rightarrow> byte list \<Rightarrow> nat \<Rightarrow> nat \<Rightarrow> rat \<Rightarrow> bool outcome" where
  "is_valid_manga_image_try w img_data min_width min_height min_aspect_ratio =
     (case image_open w img_data of
        Raises e \<Rightarrow> Raises e
      | Returns (width, height) \<Rightarrow>
          (case truediv width height of
             Raises e \<Rightarrow> Raises e
           | Returns wh \<Rightarrow>
               (case truediv height width of
                  Raises e \<Rightarrow> Raises e
                | Returns hw \<Rightarrow>
                    (let aspect_ratio = max wh hw;
                         img_size_kb = (of_nat (length img_data) :: rat) / 1024;
                         is_valid = (width > min_width \<and> height > min_height \<and>
                                     aspect_ratio \<ge> min_aspect_ratio \<and> img_size_kb > 30)
                     in Returns is_valid))))"

text \<open>The function with its \<^verbatim>\<open>except Exception: return False\<close>.\<close>

definition is_valid_manga_image_with ::
  "world \<Rightarrow> byte list \<Rightarrow> nat \<Rightarrow> nat \<Rightarrow> rat \<Rightarrow> bool outcome" where
  "is_valid_manga_image_with w img_data min_width min_height min_aspect_ratio =
     (case is_valid_manga_image_try w img_data min_width min_height min_aspect_ratio of
        Returns is_valid \<Rightarrow> Returns is_valid
      | Raises e \<Rightarrow> Returns False)"

text \<open>The call with the default arguments, as \<^verbatim>\<open>download_image\<close> makes it.\<close>

definition is_valid_manga_image :: "world \<Rightarrow> byte list \<Rightarrow> bool outcome" where
  "is_valid_manga_image w img_data = is_valid_manga_image_with w img_data 400 400 (12 / 10)"

section \<open>\<^verbatim>\<open>download_image\<close>\<close>

type_synonym image_result = "nat \<times> string option \<times> bool"

definition url_extension :: "string \<Rightarrow> string" where
  "url_extension img_url = lower (hd (split_chr (CHR ''?'') (last (split_chr (CHR ''.'') img_url))))"

definition image_extensions :: "string list" where
  "image_extensions = [''jpg'', ''jpeg'', ''png'', ''webp'', ''gif'']"

definition file_extension :: "string \<Rightarrow> string" where
  "file_extension img_url =
     (let extension = url_extension img_url
      in if extension \<notin> set image_extensions then ''jpg'' else extension)"

definition image_temp_path :: "string \<Rightarrow> nat \<Rightarrow> string \<Rightarrow> string" where
  "image_temp_path chapter_dir img_index img_url =
     path_join chapter_dir (''temp_'' @ fmt03d img_index @ ''.'' @ file_extension img_url)"

text \<open>The body of the \<^verbatim>\<open>try\<close> block: any step may raise.\<close>

definition download_image_try ::
  "world \<Rightarrow> string \<Rightarrow> string \<Rightarrow> nat \<Rightarrow> string \<Rightarrow> fs \<Rightarrow> image_result outcome \<times> fs" where
  "download_image_try w img_url referer img_index chapter_dir files =
     (case requests_get w img_url referer of
        Raises e \<Rightarrow> (Raises e, files)
      | Returns img_response \<Rightarrow>
          (case raise_for_status img_response of
             Raises e \<Rightarrow> (Raises e, files)
           | Returns _ \<Rightarrow>
               (case is_valid_manga_image w (content img_response) of
                  Raises e \<Rightarrow> (Raises e, files)
                | Returns valid \<Rightarrow>
                    if \<not> valid then (Returns (img_index, None, False), files)
                    else
                      (let img_path = image_temp_path chapter_dir img_index img_url
                       in case write_file w img_path (Returns (content img_response)) files of
                            (Raises e, files') \<Rightarrow> (Raises e, files')
                          | (Returns _, files') \<Rightarrow>
                              (Returns (img_index, Some img_path, True), files')))))"

text \<open>The function with its \<^verbatim>\<open>except Exception\<close>. The title is only printed.\<close>

definition download_image ::
  "world \<Rightarrow> string \<Rightarrow> string \<Rightarrow> nat \<Rightarrow> string \<Rightarrow> string \<Rightarrow> fs \<Rightarrow> image_result outcome \<times> fs" where
  "download_image w img_url referer img_index chapter_dir chapter_title files =
     (case download_image_try w img_url referer img_index chapter_dir files of
        (Returns result, files') \<Rightarrow> (Returns result, files')
      | (Raises e, files') \<Rightarrow> (Returns (img_index, None, False), files'))"

text \<open>
  The extension as the specification words it: taken from the trailing path segment of
  the URL once the query string is stripped; absent when that segment has no dot.
\<close>

definition spec_url_extension :: "string \<Rightarrow> string" where
  "spec_url_extension img_url =
     (let path = takeWhile (\<lambda>c. c \<noteq> CHR ''?'') img_url;
          segment = last (split_chr (CHR ''/'') path)
      in if CHR ''.'' \<in> set segment then lower (last (split_chr (CHR ''.'') segment)) else [])"

definition spec_file_extension :: "string \<Rightarrow> string" where
  "spec_file_extension img_url =
     (let extension = spec_url_extension img_url
      in if extension \<notin> set image_extensions then ''jpg'' else extension)"

section \<open>\<^verbatim>\<open>download_chapter_with_selenium\<close>\<close>

definition replace_chr :: "char \<Rightarrow> char \<Rightarrow> string \<Rightarrow> string" where
  "replace_chr old new s = map (\<lambda>c. if c = old then new else c) s"

definition chapter_directory :: "string \<Rightarrow> string" where
  "chapter_directory chapter_title =
     path_join ''downloads''
       (replace_chr (CHR '':'') (CHR ''-'')
         (replace_chr (CHR 0x5C) (CHR ''-'')
           (replace_chr (CHR ''/'') (CHR ''-'') chapter_title)))"

text \<open>\<^verbatim>\<open>ThreadPoolExecutor(max_workers=k)\<close> refuses a pool without workers.\<close>

definition thread_pool_executor :: "int \<Rightarrow> unit outcome" where
  "thread_pool_executor max_workers = (if max_workers \<le> 0 then Raises ValueError else Returns ())"

text \<open>
  The pool and the loop over \<^verbatim>\<open>as_completed\<close>. The list argument holds the submitted
  tasks \<open>(i, img_url)\<close> in the order in which their futures complete and are collected;
  the number of workers bounds how many run at a time and leaves that order open. Each
  worker runs once, on the files as the workers completed before it left them, and the loop
  keeps the result only when its third component is true. \<^verbatim>\<open>future.result()\<close> raises what
  the worker raised.
\<close>

fun image_pool ::
  "world \<Rightarrow> string \<Rightarrow> string \<Rightarrow> string \<Rightarrow> (nat \<times> string) list \<Rightarrow> fs \<Rightarrow> image_result list
     \<Rightarrow> image_result list outcome \<times> fs" where
  "image_pool w referer chapter_dir chapter_title [] files results = (Returns results, files)"
| "image_pool w referer chapter_dir chapter_title ((i, img_url) # completed) files results =
     (case download_image w img_url referer i chapter_dir chapter_title files of
        (Raises e, files') \<Rightarrow> (Raises e, files')
      | (Returns result, files') \<Rightarrow>
          image_pool w referer chapter_dir chapter_title completed files'
            (if snd (snd result) then results @ [result] else results))"

text \<open>\<^verbatim>\<open>os.rename(src, dst)\<close>: the source must exist; an existing destination is replaced.\<close>

definition os_rename :: "string \<Rightarrow> string \<Rightarrow> fs \<Rightarrow> fs outcome" where
  "os_rename src dst files =
     (case files src of
        None \<Rightarrow> Raises FileNotFoundError
      | Some data \<Rightarrow> Returns ((files(src := None))(dst \<mapsto> data)))"

text \<open>The renaming loop over the sorted results, with its counter and its list of paths.\<close>

fun rename_results ::
  "string \<Rightarrow> image_result list \<Rightarrow> nat \<Rightarrow> string list \<Rightarrow> fs
     \<Rightarrow> (nat \<times> string list) outcome \<times> fs" where
  "rename_results chapter_dir [] valid_images_count valid_image_paths files =
     (Returns (valid_images_count, valid_image_paths), files)"
| "rename_results chapter_dir ((i, path, ok) # results) valid_images_count valid_image_paths files =
     (case path of
        None \<Rightarrow> rename_results chapter_dir results valid_images_count valid_image_paths files
      | Some temp_path \<Rightarrow>
          if temp_path = []
          then rename_results chapter_dir results valid_images_count valid_image_paths files
          else
            (let count = valid_images_count + 1;
                 extension = splitext_ext temp_path;
                 final_path = path_join chapter_dir (fmt03d count @ extension)
             in case os_rename temp_path final_path files of
                  Raises e \<Rightarrow> (Raises e, files)
                | Returns files' \<Rightarrow>
                    rename_results chapter_dir results count (valid_image_paths @ [final_path])
                      files'))"

text \<open>The elements the page yields, and the URLs kept from them: a missing or empty
  \<^verbatim>\<open>src\<close> is dropped.\<close>

definition image_elements :: "page \<Rightarrow> string option list" where
  "image_elements pg = (if primary_images pg = [] then fallback_images pg else primary_images pg)"

definition image_urls :: "page \<Rightarrow> string list" where
  "image_urls pg = concat (map (\<lambda>src. case src of None \<Rightarrow> [] | Some img_url \<Rightarrow>
                                    if img_url = [] then [] else [img_url]) (image_elements pg))"

text \<open>
  The body of the \<^verbatim>\<open>try\<close> block from \<^verbatim>\<open>driver.get\<close> on, once the browser is there. Beside
  the returned pair of directory and success flag the model returns the final values of
  \<^verbatim>\<open>valid_images_count\<close> and \<^verbatim>\<open>valid_image_paths\<close>. \<open>schedule\<close> turns the submitted tasks
  into the order of their completion. When no image element is found, the file
  \<^verbatim>\<open>debug_page.html\<close> is opened before the page source is read and written.
\<close>

definition download_chapter_try ::
  "world \<Rightarrow> string \<Rightarrow> string \<Rightarrow> int \<Rightarrow> ((nat \<times> string) list \<Rightarrow> (nat \<times> string) list) \<Rightarrow> fs
     \<Rightarrow> (string \<times> bool \<times> nat \<times> string list) outcome \<times> fs" where
  "download_chapter_try w chapter_url chapter_title max_concurrent_downloads schedule files =
     (let chapter_dir = chapter_directory chapter_title;
          absolute_chapter_url = urljoin w ''https://mangapark.net'' chapter_url
      in case browse w absolute_chapter_url of
           Raises e \<Rightarrow> (Raises e, files)
         | Returns pg \<Rightarrow>
             if image_elements pg = [] then
               (case write_file w (path_join chapter_dir ''debug_page.html'') (page_source pg)
                       files of
                  (Raises e, files') \<Rightarrow> (Raises e, files')
                | (Returns _, files') \<Rightarrow> (Returns (chapter_dir, False, 0, []), files'))
             else
               (case thread_pool_executor max_concurrent_downloads of
                  Raises e \<Rightarrow> (Raises e, files)
                | Returns _ \<Rightarrow>
                    (case image_pool w absolute_chapter_url chapter_dir chapter_title
                            (schedule (enumerate 0 (image_urls pg))) files [] of
                       (Raises e, files') \<Rightarrow> (Raises e, files')
                     | (Returns results, files') \<Rightarrow>
                         (case rename_results chapter_dir (sort_key fst results) 0 [] files' of
                            (Raises e, files'') \<Rightarrow> (Raises e, files'')
                          | (Returns (valid_images_count, valid_image_paths), files'') \<Rightarrow>
                              (Returns (chapter_dir, valid_images_count > 0, valid_images_count,
                                        valid_image_paths), files'')))))"

text \<open>
  The \<^verbatim>\<open>try\<close> block with its \<^verbatim>\<open>except Exception\<close>, for a browser that is there: directory
  and success flag.
\<close>

definition download_chapter_except ::
  "world \<Rightarrow> string \<Rightarrow> string \<Rightarrow> int \<Rightarrow> ((nat \<times> string) list \<Rightarrow> (nat \<times> string) list) \<Rightarrow> fs
     \<Rightarrow> (string \<times> bool) \<times> fs" where
  "download_chapter_except w chapter_url chapter_title max_concurrent_downloads schedule files =
     (case download_chapter_try w chapter_url chapter_title max_concurrent_downloads schedule files of
        (Returns (chapter_dir, success, _), files') \<Rightarrow> ((chapter_dir, success), files')
      | (Raises e, files') \<Rightarrow> ((chapter_directory chapter_title, False), files'))"

text \<open>
  The function. \<^verbatim>\<open>os.makedirs\<close> runs before the \<^verbatim>\<open>try\<close> block: what it raises reaches
  the caller. A browser that cannot be started is an exception inside the block, with
  \<^verbatim>\<open>driver\<close> still \<^verbatim>\<open>None\<close>. Otherwise the \<^verbatim>\<open>finally\<close> clause calls \<^verbatim>\<open>driver.quit()\<close>, and
  what that raises replaces the value being returned.
\<close>

definition download_chapter_with_selenium ::
  "world \<Rightarrow> string \<Rightarrow> string \<Rightarrow> int \<Rightarrow> ((nat \<times> string) list \<Rightarrow> (nat \<times> string) list) \<Rightarrow> fs
     \<Rightarrow> (string \<times> bool) outcome \<times> fs" where
  "download_chapter_with_selenium w chapter_url chapter_title max_concurrent_downloads schedule files =
     (let chapter_dir = chapter_directory chapter_title
      in case makedirs w chapter_dir of
           Raises e \<Rightarrow> (Raises e, files)
         | Returns _ \<Rightarrow>
             (case initialize_browser w of
                Raises e \<Rightarrow> (Returns (chapter_dir, False), files)
              | Returns _ \<Rightarrow>
                  (case download_chapter_except w chapter_url chapter_title
                          max_concurrent_downloads schedule files of
                     (result, files') \<Rightarrow>
                       (case driver_quit w of
                          Raises e \<Rightarrow> (Raises e, files')
                        | Returns _ \<Rightarrow> (Returns result, files')))))"

text \<open>
  What one worker does, read off \<^verbatim>\<open>download_image\<close>: the bytes fetched; whether the
  temporary file of a task is opened, which takes a response without error status and a
  valid image; whether the task is accepted, which takes in addition that all its bytes
  are written; the bytes its temporary file holds once it is opened; the result returned
  and the change to the files.
\<close>

definition payload :: "world \<Rightarrow> string \<Rightarrow> string \<Rightarrow> byte list" where
  "payload w referer img_url =
     (case requests_get w img_url referer of Returns r \<Rightarrow> content r | Raises e \<Rightarrow> [])"

definition opened :: "world \<Rightarrow> string \<Rightarrow> string \<Rightarrow> nat \<times> string \<Rightarrow> bool" where
  "opened w referer chapter_dir task =
     (case task of (i, img_url) \<Rightarrow>
        (case requests_get w img_url referer of
           Raises e \<Rightarrow> False
         | Returns r \<Rightarrow>
             raise_for_status r = Returns () \<and>
             is_valid_manga_image w (content r) = Returns True \<and>
             open_write w (image_temp_path chapter_dir i img_url) = Returns ()))"

definition accepted :: "world \<Rightarrow> string \<Rightarrow> string \<Rightarrow> nat \<times> string \<Rightarrow> bool" where
  "accepted w referer chapter_dir task =
     (case task of (i, img_url) \<Rightarrow>
        opened w referer chapter_dir task \<and>
        write_data w (image_temp_path chapter_dir i img_url) (payload w referer img_url) = None)"

definition stored :: "world \<Rightarrow> string \<Rightarrow> string \<Rightarrow> nat \<times> string \<Rightarrow> byte list" where
  "stored w referer chapter_dir task =
     (case task of (i, img_url) \<Rightarrow>
        (case write_data w (image_temp_path chapter_dir i img_url) (payload w referer img_url) of
           None \<Rightarrow> payload w referer img_url
         | Some (e, written) \<Rightarrow> take written (payload w referer img_url)))"

definition worker_result :: "world \<Rightarrow> string \<Rightarrow> string \<Rightarrow> nat \<times> string \<Rightarrow> image_result" where
  "worker_result w referer chapter_dir task =
     (case task of (i, img_url) \<Rightarrow>
        if accepted w referer chapter_dir task then (i, Some (image_temp_path chapter_dir i img_url), True)
        else (i, None, False))"

definition worker_effect :: "world \<Rightarrow> string \<Rightarrow> string \<Rightarrow> nat \<times> string \<Rightarrow> fs \<Rightarrow> fs" where
  "worker_effect w referer chapter_dir task files =
     (case task of (i, img_url) \<Rightarrow>
        if opened w referer chapter_dir task
        then files(image_temp_path chapter_dir i img_url \<mapsto> stored w referer chapter_dir task)
        else files)"

text \<open>The final name of the \<open>k\<close>-th accepted task, counted from zero.\<close>

definition image_final_path :: "string \<Rightarrow> nat \<Rightarrow> nat \<times> string \<Rightarrow> string" where
  "image_final_path chapter_dir k task =
     path_join chapter_dir (fmt03d (k + 1) @ ''.'' @ file_extension (snd task))"




text \<open>
  The accepted tasks of a chapter in submission order, and the files a chapter directory
  holds after assembly when \<open>tasks\<close> are the accepted tasks: every temporary file of an
  accepted task is gone, and the \<open>k\<close>-th accepted task's bytes are stored under the \<open>k\<close>-th
  final name.
\<close>

definition accepted_tasks :: "world \<Rightarrow> string \<Rightarrow> string \<Rightarrow> string list \<Rightarrow> (nat \<times> string) list" where
  "accepted_tasks w referer chapter_dir urls =
     filter (accepted w referer chapter_dir) (enumerate 0 urls)"

definition final_paths :: "string \<Rightarrow> nat \<Rightarrow> (nat \<times> string) list \<Rightarrow> string list" where
  "final_paths chapter_dir start tasks =
     map (\<lambda>(k, task). image_final_path chapter_dir k task) (enumerate start tasks)"




section \<open>\<^verbatim>\<open>create_cbz\<close> and \<^verbatim>\<open>create_pdf\<close>\<close>

text \<open>
  The converters and the job see the chapter directories as a map from the path of a
  directory to the names listed in it. What else they need from outside is a parameter:
  \<^item> \<open>zip_write path entries\<close> is the creation of the archive at \<open>path\<close> from the pairs of
    file and archive name;
  \<^item> \<open>open_output path\<close> is \<^verbatim>\<open>open(path, "wb")\<close>, \<open>img2pdf_convert files\<close> the document
    bytes or the error of the encoder, \<open>write_output path data\<close> the write;
  \<^item> \<open>rmtree path names\<close> is \<^verbatim>\<open>shutil.rmtree\<close> on a directory with these names: \<open>None\<close>
    when the directory is gone, or the names left behind when the removal raised;
  \<^item> \<open>int_scale idx n k\<close> is \<^verbatim>\<open>int(idx / n * k)\<close>, computed by Python in binary
    floating point;
  \<^item> \<open>os_makedirs path\<close> is \<^verbatim>\<open>os.makedirs(path, exist_ok=True)\<close>;
  \<^item> \<open>download_chapter\<close> is \<^verbatim>\<open>download_chapter_with_selenium\<close> as the job calls it: the
    pair it returns or the exception it raises, and the directories it leaves;
  \<^item> \<open>download_chapters_threaded\<close> is the download of a list of chapters by the function
    of that name, which catches what the download of a chapter raises: the list it returns
    and the directories it leaves.
  The archives and documents are written beside the chapter directories and are not
  entries of this map.
\<close>

type_synonym dirs = "string \<rightharpoonup> string list"

record chapter_entry =
  title :: string
  url :: string

record host =
  zip_write :: "string \<Rightarrow> (string \<times> string) list \<Rightarrow> unit outcome"
  open_output :: "string \<Rightarrow> unit outcome"
  img2pdf_convert :: "string list \<Rightarrow> byte list outcome"
  write_output :: "string \<Rightarrow> byte list \<Rightarrow> unit outcome"
  rmtree :: "string \<Rightarrow> string list \<Rightarrow> string list option"
  int_scale :: "nat \<Rightarrow> nat \<Rightarrow> nat \<Rightarrow> nat"
  os_makedirs :: "string \<Rightarrow> unit outcome"
  download_chapter :: "string \<Rightarrow> string \<Rightarrow> int \<Rightarrow> dirs \<Rightarrow> (string \<times> bool) outcome \<times> dirs"
  download_chapters_threaded :: "chapter_entry list \<Rightarrow> int \<Rightarrow> dirs \<Rightarrow> (string \<times> string) list \<times> dirs"

definition os_listdir :: "dirs \<Rightarrow> string \<Rightarrow> string list outcome" where
  "os_listdir ds path = (case ds path of None \<Rightarrow> Raises FileNotFoundError | Some names \<Rightarrow> Returns names)"

definition os_path_exists :: "dirs \<Rightarrow> string \<Rightarrow> bool" where
  "os_path_exists ds path = (ds path \<noteq> None)"

definition os_path_isdir :: "dirs \<Rightarrow> string \<Rightarrow> bool" where
  "os_path_isdir ds path = (ds path \<noteq> None)"

definition shutil_rmtree :: "host \<Rightarrow> string \<Rightarrow> dirs \<Rightarrow> unit outcome \<times> dirs" where
  "shutil_rmtree h path ds =
     (case ds path of
        None \<Rightarrow> (Raises FileNotFoundError, ds)
      | Some names \<Rightarrow>
          (case rmtree h path names of
             None \<Rightarrow> (Returns (), ds(path := None))
           | Some left \<Rightarrow> (Raises OSError, ds(path \<mapsto> left))))"

definition cbz_suffixes :: "string list" where
  "cbz_suffixes = [''.jpg'', ''.jpeg'', ''.png'', ''.webp'', ''.gif'']"

definition pdf_suffixes :: "string list" where
  "pdf_suffixes = [''.jpg'', ''.jpeg'', ''.png'']"

text \<open>The loop over \<^verbatim>\<open>os.listdir(chapter_dir)\<close> that keeps the files with a given ending.\<close>

definition listed_images :: "string list \<Rightarrow> string \<Rightarrow> string list \<Rightarrow> string list" where
  "listed_images suffixes chapter_dir names =
     map (path_join chapter_dir) (filter (\<lambda>file. endswith (lower file) suffixes) names)"

definition create_cbz_try :: "host \<Rightarrow> dirs \<Rightarrow> string \<Rightarrow> string \<Rightarrow> string option outcome" where
  "create_cbz_try h ds chapter_dir chapter_title =
     (case os_listdir ds chapter_dir of
        Raises e \<Rightarrow> Raises e
      | Returns names \<Rightarrow>
          (let image_files = listed_images cbz_suffixes chapter_dir names
           in if image_files = [] then Returns None
              else
                (let image_files = sort image_files;
                     cbz_path = chapter_dir @ ''.cbz''
                 in case zip_write h cbz_path (map (\<lambda>img_file. (img_file, basename img_file))
                                                  image_files) of
                      Raises e \<Rightarrow> Raises e
                    | Returns _ \<Rightarrow> Returns (Some cbz_path))))"

definition create_cbz :: "host \<Rightarrow> dirs \<Rightarrow> string \<Rightarrow> string \<Rightarrow> string option outcome" where
  "create_cbz h ds chapter_dir chapter_title =
     (case create_cbz_try h ds chapter_dir chapter_title of
        Returns path \<Rightarrow> Returns path
      | Raises e \<Rightarrow> Returns None)"

definition create_pdf_try :: "host \<Rightarrow> dirs \<Rightarrow> string \<Rightarrow> string \<Rightarrow> string option outcome" where
  "create_pdf_try h ds chapter_dir chapter_title =
     (case os_listdir ds chapter_dir of
        Raises e \<Rightarrow> Raises e
      | Returns names \<Rightarrow>
          (let image_files = listed_images pdf_suffixes chapter_dir names
           in if image_files = [] then Returns None
              else
                (let image_files = sort image_files;
                     pdf_path = chapter_dir @ ''.pdf''
                 in case open_output h pdf_path of
                      Raises e \<Rightarrow> Raises e
                    | Returns _ \<Rightarrow>
                        (case img2pdf_convert h image_files of
                           Raises e \<Rightarrow> Raises e
                         | Returns pdf_bytes \<Rightarrow>
                             if pdf_bytes \<noteq> [] then
                               (case write_output h pdf_path pdf_bytes of
                                  Raises e \<Rightarrow> Raises e
                                | Returns _ \<Rightarrow> Returns (Some pdf_path))
                             else Returns (Some pdf_path)))))"

definition create_pdf :: "host \<Rightarrow> dirs \<Rightarrow> string \<Rightarrow> string \<Rightarrow> string option outcome" where
  "create_pdf h ds chapter_dir chapter_title =
     (case create_pdf_try h ds chapter_dir chapter_title of
        Returns path \<Rightarrow> Returns path
      | Raises e \<Rightarrow> Returns None)"

section \<open>\<^verbatim>\<open>run_download_job\<close>\<close>

text \<open>
  The job emits log lines and progress values on its signals; the model records them in
  order. A log event carries what the line is about.
\<close>

datatype label = CBZ | PDF

datatype event =
    Log_downloading nat
  | Log_chapter nat nat string
  | Log_none_finished
  | Log_running label
  | Log_skipping string string
  | Log_ready label string
  | Log_removed string string
  | Log_cleanup_failed string string
  | Log_failed label string
  | Progress nat

record job_state =
  dirs :: dirs
  events :: "event list"

definition emit :: "event \<Rightarrow> job_state \<Rightarrow> job_state" where
  "emit e s = s\<lparr>events := events s @ [e]\<rparr>"

definition progress_values :: "event list \<Rightarrow> nat list" where
  "progress_values es = concat (map (\<lambda>e. case e of Progress n \<Rightarrow> [n] | _ \<Rightarrow> []) es)"

definition conversions :: "string \<Rightarrow> label list" where
  "conversions convert_mode =
     (if convert_mode \<in> {''cbz'', ''both''} then [CBZ] else [])
     @ (if convert_mode \<in> {''pdf'', ''both''} then [PDF] else [])"

definition converter :: "label \<Rightarrow> host \<Rightarrow> dirs \<Rightarrow> string \<Rightarrow> string \<Rightarrow> string option outcome" where
  "converter l = (case l of CBZ \<Rightarrow> create_cbz | PDF \<Rightarrow> create_pdf)"

text \<open>
  The sequential download loop over \<^verbatim>\<open>enumerate(chapters, 1)\<close>. The call of the download
  is not guarded: what it raises ends the loop and the job.
\<close>

fun download_sequential ::
  "host \<Rightarrow> nat \<Rightarrow> (nat \<times> chapter_entry) list \<Rightarrow> (string \<times> string) list \<Rightarrow> job_state
     \<Rightarrow> (string \<times> string) list outcome \<times> job_state" where
  "download_sequential h total_count [] successful s = (Returns successful, s)"
| "download_sequential h total_count ((idx, chapter) # chapters) successful s =
     (let s1 = emit (Log_chapter idx total_count (title chapter)) s
      in case download_chapter h (url chapter) (title chapter) 1 (dirs s1) of
           (Raises e, ds) \<Rightarrow> (Raises e, s1\<lparr>dirs := ds\<rparr>)
         | (Returns (chapter_dir, ok), ds) \<Rightarrow>
             (let successful' = (if ok then successful @ [(chapter_dir, title chapter)]
                                 else successful);
                  s2 = emit (Progress (int_scale h idx total_count 60)) (s1\<lparr>dirs := ds\<rparr>)
              in download_sequential h total_count chapters successful' s2))"

text \<open>The cleanup after a conversion that produced \<open>output\<close>.\<close>

definition cleanup :: "host \<Rightarrow> bool \<Rightarrow> string \<Rightarrow> string \<Rightarrow> job_state \<Rightarrow> job_state" where
  "cleanup h delete_sources chapter_dir chapter_title s =
     (if delete_sources \<and> os_path_isdir (dirs s) chapter_dir then
        (case shutil_rmtree h chapter_dir (dirs s) of
           (Returns _, ds) \<Rightarrow> emit (Log_removed chapter_dir chapter_title) (s\<lparr>dirs := ds\<rparr>)
         | (Raises e, ds) \<Rightarrow> emit (Log_cleanup_failed chapter_dir chapter_title) (s\<lparr>dirs := ds\<rparr>))
      else s)"

text \<open>The inner loop of one conversion phase over \<^verbatim>\<open>enumerate(successful, 1)\<close>.\<close>

fun convert_chapters ::
  "host \<Rightarrow> bool \<Rightarrow> nat \<Rightarrow> nat \<Rightarrow> label \<Rightarrow> nat \<Rightarrow> (nat \<times> string \<times> string) list \<Rightarrow> job_state
     \<Rightarrow> unit outcome \<times> job_state" where
  "convert_chapters h delete_sources n_conversions phase l total_count [] s = (Returns (), s)"
| "convert_chapters h delete_sources n_conversions phase l total_count
     ((idx, chapter_dir, chapter_title) # successful) s =
     (if l = PDF \<and> \<not> os_path_exists (dirs s) chapter_dir
      then convert_chapters h delete_sources n_conversions phase l total_count successful
             (emit (Log_skipping chapter_dir chapter_title) s)
      else
        (case converter l h (dirs s) chapter_dir chapter_title of
           Raises e \<Rightarrow> (Raises e, s)
         | Returns output \<Rightarrow>
             (let s1 = (case output of
                          Some path \<Rightarrow>
                            cleanup h delete_sources chapter_dir chapter_title
                              (emit (Log_ready l path) s)
                        | None \<Rightarrow> emit (Log_failed l chapter_title) s);
                  span = 35 div max 1 n_conversions;
                  progress = 60 + (phase - 1) * span + int_scale h idx (max 1 total_count) span
              in convert_chapters h delete_sources n_conversions phase l total_count successful
                   (emit (Progress (min 95 progress)) s1))))"

text \<open>The outer loop over \<^verbatim>\<open>enumerate(conversions, 1)\<close>.\<close>

fun convert_phases ::
  "host \<Rightarrow> bool \<Rightarrow> nat \<Rightarrow> (nat \<times> label) list \<Rightarrow> (string \<times> string) list \<Rightarrow> job_state
     \<Rightarrow> unit outcome \<times> job_state" where
  "convert_phases h delete_sources n_conversions [] successful s = (Returns (), s)"
| "convert_phases h delete_sources n_conversions ((phase, l) # phases) successful s =
     (case convert_chapters h delete_sources n_conversions phase l (length successful)
             (enumerate 1 successful) (emit (Log_running l) s) of
        (Raises e, s') \<Rightarrow> (Raises e, s')
      | (Returns _, s') \<Rightarrow> convert_phases h delete_sources n_conversions phases successful s')"

text \<open>The download stage: threaded, or one chapter after the other.\<close>

definition download_stage ::
  "host \<Rightarrow> chapter_entry list \<Rightarrow> bool \<Rightarrow> int \<Rightarrow> job_state
     \<Rightarrow> (string \<times> string) list outcome \<times> job_state" where
  "download_stage h chapters threaded concurrency s =
     (if threaded then
        (case download_chapters_threaded h chapters (max 1 concurrency) (dirs s) of
           (successful, ds) \<Rightarrow> (Returns successful, s\<lparr>dirs := ds\<rparr>))
      else download_sequential h (length chapters) (enumerate 1 chapters) [] s)"

definition run_download_job ::
  "host \<Rightarrow> chapter_entry list \<Rightarrow> bool \<Rightarrow> int \<Rightarrow> string \<Rightarrow> bool \<Rightarrow> job_state
     \<Rightarrow> (string \<times> string) list outcome \<times> job_state" where
  "run_download_job h chapters threaded concurrency convert_mode delete_sources s =
     (if chapters = [] then (Raises ValueError, s)
      else
        (case os_makedirs h ''downloads'' of
           Raises e \<Rightarrow> (Raises e, s)
         | Returns _ \<Rightarrow>
             (case download_stage h chapters threaded concurrency
                     (emit (Log_downloading (length chapters)) s) of
                (Raises e, s1) \<Rightarrow> (Raises e, s1)
              | (Returns successful, s1) \<Rightarrow>
                  if successful = []
                  then (Returns [], emit (Progress 100) (emit Log_none_finished s1))
                  else
                    (case convert_phases h delete_sources (length (conversions convert_mode))
                            (enumerate 1 (conversions convert_mode)) successful s1 of
                       (Raises e, s2) \<Rightarrow> (Raises e, s2)
                     | (Returns _, s2) \<Rightarrow> (Returns successful, emit (Progress 100) s2)))))"

text \<open>
  The progress value of a round of the inner loop, and the round itself as a function of
  the state, for a converter that returns.
\<close>

definition phase_progress :: "host \<Rightarrow> nat \<Rightarrow> nat \<Rightarrow> nat \<Rightarrow> nat \<Rightarrow> nat" where
  "phase_progress h n_conversions phase total_count idx =
     min 95 (60 + (phase - 1) * (35 div max 1 n_conversions)
             + int_scale h idx (max 1 total_count) (35 div max 1 n_conversions))"

definition convert_step ::
  "host \<Rightarrow> bool \<Rightarrow> nat \<Rightarrow> nat \<Rightarrow> label \<Rightarrow> nat \<Rightarrow> nat \<times> string \<times> string \<Rightarrow> job_state
     \<Rightarrow> job_state" where
  "convert_step h delete_sources n_conversions phase l total_count task s =
     (case task of (idx, chapter_dir, chapter_title) \<Rightarrow>
        if l = PDF \<and> \<not> os_path_exists (dirs s) chapter_dir
        then emit (Log_skipping chapter_dir chapter_title) s
        else
          (case converter l h (dirs s) chapter_dir chapter_title of
             Raises e \<Rightarrow> s
           | Returns output \<Rightarrow>
               emit (Progress (phase_progress h n_conversions phase total_count idx))
                 (case output of
                    Some path \<Rightarrow>
                      cleanup h delete_sources chapter_dir chapter_title (emit (Log_ready l path) s)
                  | None \<Rightarrow> emit (Log_failed l chapter_title) s)))"

definition archive_suffix :: "label \<Rightarrow> string" where
  "archive_suffix l = (case l of CBZ \<Rightarrow> ''.cbz'' | PDF \<Rightarrow> ''.pdf'')"

text \<open>The events logged between an earlier and a later state of the job.\<close>

definition logged :: "job_state \<Rightarrow> job_state \<Rightarrow> event list" where
  "logged s s' = drop (length (events s)) (events s')"

text \<open>
  What the theorems on the progress values need of \<^verbatim>\<open>int(idx / total * k)\<close>: it grows with
  \<open>idx\<close>, and it stays at or below \<open>k\<close> while \<open>idx\<close> is at most \<open>total\<close>. Rounding to nearest
  and truncation are monotone, so binary floating point meets both; so does the exact
  quotient \<open>exact_scale\<close>.
\<close>

definition monotone_scale :: "(nat \<Rightarrow> nat \<Rightarrow> nat \<Rightarrow> nat) \<Rightarrow> bool" where
  "monotone_scale f \<longleftrightarrow>
     (\<forall>i j total_count k. i \<le> j \<longrightarrow> f i total_count k \<le> f j total_count k)
     \<and> (\<forall>i total_count k. i \<le> total_count \<longrightarrow> f i total_count k \<le> k)"

definition exact_scale :: "nat \<Rightarrow> nat \<Rightarrow> nat \<Rightarrow> nat" where
  "exact_scale idx total_count k = (idx * k) div total_count"

definition sample_host :: host where
  "sample_host =
     \<lparr> zip_write = (\<lambda>path entries. Returns ()),
       open_output = (\<lambda>path. Returns ()),
       img2pdf_convert = (\<lambda>files. Returns [37, 80, 68, 70]),
       write_output = (\<lambda>path data. Returns ()),
       rmtree = (\<lambda>path names. None),
       int_scale = exact_scale,
       os_makedirs = (\<lambda>path. Returns ()),
       download_chapter = (\<lambda>chapter_url chapter_title workers ds.
          (Returns (chapter_directory chapter_title, chapter_url \<noteq> ''/title/1/c2''),
           ds(chapter_directory chapter_title \<mapsto>
                (if chapter_url = ''/title/1/c2'' then [''debug_page.html'']
                 else [''002.webp'', ''001.jpg''])))),
       download_chapters_threaded = (\<lambda>chapters workers ds. ([], ds)) \<rparr>"

definition sample_chapters :: "chapter_entry list" where
  "sample_chapters =
     [\<lparr> title = ''Chapter 1'', url = ''/title/1/c1'' \<rparr>,
      \<lparr> title = ''Chapter 2'', url = ''/title/1/c2'' \<rparr>,
      \<lparr> title = ''Chapter 3'', url = ''/title/1/c3'' \<rparr>]"

text \<open>Sample environments for concrete runs.\<close>

definition sample_page :: page where
  "sample_page =
     \<lparr> primary_images = [Some ''https://img.example/a/1.jpg'', None,
                           Some ''https://img.example/missing.jpg'',
                           Some ''https://img.example/a/3.PNG?v=2''],
       fallback_images = [],
       page_source = Returns [60, 104, 62] \<rparr>"

definition sample_world :: "(nat \<times> nat) outcome \<Rightarrow> world" where
  "sample_world decoded =
     \<lparr> requests_get = (\<lambda>url referer.
          if url = ''https://img.example/missing.jpg'' then Raises ConnectionError
          else if url = ''https://img.example/gone.jpg''
          then Returns \<lparr> status_code = 404, content = [] \<rparr>
          else Returns \<lparr> status_code = 200, content = replicate 51200 0 \<rparr>),
       image_open = (\<lambda>data. decoded),
       open_write = (\<lambda>path. Returns ()),
       write_data = (\<lambda>path data. None),
       makedirs = (\<lambda>path. Returns ()),
       urljoin = (\<lambda>base url. base @ url),
       initialize_browser = Returns (),
       browse = (\<lambda>url. if url = ''https://mangapark.net/title/1/c1'' then Returns sample_page
                       else if url = ''https://mangapark.net/title/1/c2''
                       then Returns \<lparr> primary_images = [], fallback_images = [],
                                       page_source = Returns [60, 104, 62] \<rparr>
                       else Raises WebDriverException),
       driver_quit = Returns () \<rparr>"


text \<open>
  A world that refuses to create the directory of one chapter, and the job on two chapters
  whose downloads are those of this world.
\<close>

definition no_directory_world :: world where
  "no_directory_world =
     (sample_world (Returns (800, 1200)))
       \<lparr> makedirs := (\<lambda>path. if path = ''downloads/Chapter 2- Who?'' then Raises OSError
                                else Returns ()) \<rparr>"

definition aborting_host :: host where
  "aborting_host =
     sample_host
       \<lparr> download_chapter := (\<lambda>chapter_url chapter_title workers ds.
            (fst (download_chapter_with_selenium no_directory_world chapter_url chapter_title
                    workers (\<lambda>tasks. tasks) Map.empty), ds)) \<rparr>"

definition aborting_chapters :: "chapter_entry list" where
  "aborting_chapters =
     [\<lparr> title = ''Chapter 3'', url = ''/title/1/c3'' \<rparr>,
      \<lparr> title = ''Chapter 2: Who?'', url = ''/title/1/c2'' \<rparr>]"

section \<open>Properties of the validator\<close>

lemma is_valid_manga_image_try_zero:
  assumes "image_open w d = Returns (wd, ht)" and "wd = 0 \<or> ht = 0"
  shows "is_valid_manga_image_try w d mw mh mar = Raises ZeroDivisionError"
  using assms by (auto simp: is_valid_manga_image_try_def truediv_def)

lemma is_valid_manga_image_try_pos:
  assumes "image_open w d = Returns (wd, ht)" and "0 < wd" and "0 < ht"
  shows "is_valid_manga_image_try w d mw mh mar =
           Returns (mw < wd \<and> mh < ht \<and>
                    mar \<le> max (of_nat wd / of_nat ht) (of_nat ht / of_nat wd) \<and>
                    30 < (of_nat (length d) :: rat) / 1024)"
  using assms by (simp add: is_valid_manga_image_try_def truediv_def Let_def)

lemma is_valid_manga_image_try_undecodable:
  assumes "image_open w d = Raises e"
  shows "is_valid_manga_image_try w d mw mh mar = Raises e"
  using assms by (simp add: is_valid_manga_image_try_def)

lemma is_valid_manga_image_char:
  "is_valid_manga_image w d =
     Returns (case image_open w d of
                Raises e \<Rightarrow> False
              | Returns (wd, ht) \<Rightarrow>
                  400 < wd \<and> 400 < ht \<and>
                  12 / 10 \<le> max ((of_nat wd :: rat) / of_nat ht) (of_nat ht / of_nat wd) \<and>
                  30 < (of_nat (length d) :: rat) / 1024)"
proof (cases "image_open w d")
  case (Raises e)
  then show ?thesis
    by (simp add: is_valid_manga_image_def is_valid_manga_image_with_def
        is_valid_manga_image_try_undecodable)
next
  case (Returns dims)
  obtain wd ht where dims: "dims = (wd, ht)" by (cases dims)
  show ?thesis
  proof (cases "wd = 0 \<or> ht = 0")
    case True
    with Returns dims have "is_valid_manga_image_try w d 400 400 (12 / 10) = Raises ZeroDivisionError"
      by (simp add: is_valid_manga_image_try_zero)
    with True Returns dims show ?thesis
      by (auto simp: is_valid_manga_image_def is_valid_manga_image_with_def)
  next
    case False
    with Returns dims show ?thesis
      by (simp add: is_valid_manga_image_def is_valid_manga_image_with_def
          is_valid_manga_image_try_pos)
  qed
qed

text \<open>
  C2. The validator accepts a buffer exactly when it decodes to an image of width above
  400 and height above 400, with aspect ratio \<open>max (w/h) (h/w)\<close> at least 1.2 and with more
  than 30 KB of data; a buffer that does not decode is rejected. The four test vectors:
  399 by 500 at 50 KB, 500 by 500 at 50 KB and 500 by 800 at 20 KB are rejected, 500 by 800
  at 50 KB is accepted.
\<close>

theorem is_valid_manga_image_accepts_iff:
  "is_valid_manga_image w d =
     Returns (\<exists>wd ht. image_open w d = Returns (wd, ht) \<and> 400 < wd \<and> 400 < ht \<and>
                12 / 10 \<le> max ((of_nat wd :: rat) / of_nat ht) (of_nat ht / of_nat wd) \<and>
                30 < (of_nat (length d) :: rat) / 1024)
   \<and> ((\<exists>e. image_open w d = Raises e) \<longrightarrow> is_valid_manga_image w d = Returns False)
   \<and> (image_open w d = Returns (399, 500) \<and> length d = 50 * 1024 \<longrightarrow>
        is_valid_manga_image w d = Returns False)
   \<and> (image_open w d = Returns (500, 500) \<and> length d = 50 * 1024 \<longrightarrow>
        is_valid_manga_image w d = Returns False)
   \<and> (image_open w d = Returns (500, 800) \<and> length d = 20 * 1024 \<longrightarrow>
        is_valid_manga_image w d = Returns False)
   \<and> (image_open w d = Returns (500, 800) \<and> length d = 50 * 1024 \<longrightarrow>
        is_valid_manga_image w d = Returns True)"
  by (auto simp: is_valid_manga_image_char split: outcome.splits)

theorem is_valid_manga_image_accepts_iff_witness:
  "is_valid_manga_image (sample_world (Returns (399, 500))) (replicate 51200 0) = Returns False
   \<and> is_valid_manga_image (sample_world (Returns (500, 500))) (replicate 51200 0) = Returns False
   \<and> is_valid_manga_image (sample_world (Returns (500, 800))) (replicate 20480 0) = Returns False
   \<and> is_valid_manga_image (sample_world (Returns (500, 800))) (replicate 51200 0) = Returns True
   \<and> is_valid_manga_image (sample_world (Raises UnidentifiedImageError)) (replicate 51200 0)
       = Returns False"
proof -
  have a: "image_open (sample_world decoded) d = decoded" for decoded d
    by (simp add: sample_world_def)
  have l: "length (replicate 51200 (0::byte)) = 50 * 1024"
    "length (replicate 20480 (0::byte)) = 20 * 1024"
    by simp_all
  note v1 = is_valid_manga_image_accepts_iff
              [of "sample_world (Returns (399, 500))" "replicate 51200 0",
               THEN conjunct2, THEN conjunct2, THEN conjunct1, rule_format]
  note v2 = is_valid_manga_image_accepts_iff
              [of "sample_world (Returns (500, 500))" "replicate 51200 0",
               THEN conjunct2, THEN conjunct2, THEN conjunct2, THEN conjunct1, rule_format]
  note v3 = is_valid_manga_image_accepts_iff
              [of "sample_world (Returns (500, 800))" "replicate 20480 0",
               THEN conjunct2, THEN conjunct2, THEN conjunct2, THEN conjunct2, THEN conjunct1,
               rule_format]
  note v4 = is_valid_manga_image_accepts_iff
              [of "sample_world (Returns (500, 800))" "replicate 51200 0",
               THEN conjunct2, THEN conjunct2, THEN conjunct2, THEN conjunct2, THEN conjunct2,
               rule_format]
  note v5 = is_valid_manga_image_accepts_iff
              [of "sample_world (Raises UnidentifiedImageError)" "replicate 51200 0",
               THEN conjunct2, THEN conjunct1, rule_format]
  have "is_valid_manga_image (sample_world (Returns (399, 500))) (replicate 51200 0) = Returns False"
    by (rule v1) (simp only: a l simp_thms)
  moreover
  have "is_valid_manga_image (sample_world (Returns (500, 500))) (replicate 51200 0) = Returns False"
    by (rule v2) (simp only: a l simp_thms)
  moreover
  have "is_valid_manga_image (sample_world (Returns (500, 800))) (replicate 20480 0) = Returns False"
    by (rule v3) (simp only: a l simp_thms)
  moreover
  have "is_valid_manga_image (sample_world (Returns (500, 800))) (replicate 51200 0) = Returns True"
    by (rule v4) (simp only: a l simp_thms)
  moreover
  have "is_valid_manga_image (sample_world (Raises UnidentifiedImageError)) (replicate 51200 0)
          = Returns False"
    by (rule v5) (simp only: a outcome.inject simp_thms)
  ultimately show ?thesis by (intro conjI)
qed

text \<open>
  C9. The validator is total: on every buffer it returns a boolean and raises nothing.
  A buffer that decodes to an image of width or height zero makes the aspect-ratio
  division raise inside the \<^verbatim>\<open>try\<close> block, and so does a buffer that does not decode;
  every such exception is caught and the buffer is rejected.
\<close>

theorem is_valid_manga_image_total:
  "(\<exists>b. is_valid_manga_image w d = Returns b)
   \<and> (\<forall>wd ht. image_open w d = Returns (wd, ht) \<and> (wd = 0 \<or> ht = 0) \<longrightarrow>
        is_valid_manga_image_try w d 400 400 (12 / 10) = Raises ZeroDivisionError
        \<and> is_valid_manga_image w d = Returns False)
   \<and> (\<forall>e. is_valid_manga_image_try w d 400 400 (12 / 10) = Raises e \<longrightarrow>
        is_valid_manga_image w d = Returns False)"
  by (auto simp: is_valid_manga_image_def is_valid_manga_image_with_def
      is_valid_manga_image_try_zero split: outcome.splits)

theorem is_valid_manga_image_total_witness:
  "is_valid_manga_image_try (sample_world (Returns (0, 800))) (replicate 51200 0) 400 400 (12 / 10)
     = Raises ZeroDivisionError
   \<and> is_valid_manga_image (sample_world (Returns (0, 800))) (replicate 51200 0) = Returns False
   \<and> is_valid_manga_image (sample_world (Returns (800, 0))) (replicate 51200 0) = Returns False"
proof -
  have a: "image_open (sample_world decoded) d = decoded" for decoded d
    by (simp add: sample_world_def)
  note z1 = is_valid_manga_image_total
              [of "sample_world (Returns (0, 800))" "replicate 51200 0",
               THEN conjunct2, THEN conjunct1, rule_format, of 0 800]
  note z2 = is_valid_manga_image_total
              [of "sample_world (Returns (800, 0))" "replicate 51200 0",
               THEN conjunct2, THEN conjunct1, rule_format, of 800 0]
  have "is_valid_manga_image_try (sample_world (Returns (0, 800))) (replicate 51200 0)
            400 400 (12 / 10) = Raises ZeroDivisionError
        \<and> is_valid_manga_image (sample_world (Returns (0, 800))) (replicate 51200 0)
            = Returns False"
    by (rule z1) (simp only: a simp_thms)
  moreover
  have "is_valid_manga_image_try (sample_world (Returns (800, 0))) (replicate 51200 0)
            400 400 (12 / 10) = Raises ZeroDivisionError
        \<and> is_valid_manga_image (sample_world (Returns (800, 0))) (replicate 51200 0)
            = Returns False"
    by (rule z2) (simp only: a simp_thms)
  ultimately show ?thesis by (elim conjE) (intro conjI)
qed

section \<open>Properties of the download worker\<close>

text \<open>
  C4. The download worker never lets an exception reach its caller: for every task,
  referer and destination it returns a result carrying the task's own index. When the
  request raises a transport error, or the response has an error status, the result is
  the task's index with no storage path and \<open>accepted = False\<close>, and no file is written;
  the same result is returned whatever else raises inside the worker.
\<close>

theorem download_image_never_raises:
  "(\<exists>result. fst (download_image w img_url referer img_index chapter_dir chapter_title files)
       = Returns result \<and> fst result = img_index)
   \<and> ((\<exists>e. requests_get w img_url referer = Raises e)
        \<or> (\<exists>r e. requests_get w img_url referer = Returns r \<and> raise_for_status r = Raises e)
       \<longrightarrow> download_image w img_url referer img_index chapter_dir chapter_title files
             = (Returns (img_index, None, False), files))
   \<and> (\<forall>e. fst (download_image_try w img_url referer img_index chapter_dir files) = Raises e
       \<longrightarrow> fst (download_image w img_url referer img_index chapter_dir chapter_title files)
             = Returns (img_index, None, False))"
  by (auto simp: download_image_def download_image_try_def write_file_def Let_def
      split: outcome.splits prod.splits option.splits)

theorem download_image_never_raises_witness:
  "download_image (sample_world (Returns (800, 1200))) ''https://img.example/missing.jpg''
       ''https://mangapark.net/title/1/c1'' 4 ''downloads/Chapter 1'' ''Chapter 1'' Map.empty
     = (Returns (4, None, False), Map.empty)
   \<and> download_image (sample_world (Returns (800, 1200))) ''https://img.example/gone.jpg''
       ''https://mangapark.net/title/1/c1'' 5 ''downloads/Chapter 1'' ''Chapter 1'' Map.empty
     = (Returns (5, None, False), Map.empty)"
proof -
  let ?w = "sample_world (Returns (800, 1200))"
  have g1: "requests_get ?w ''https://img.example/missing.jpg'' r = Raises ConnectionError" for r
    by (simp add: sample_world_def)
  have g2: "requests_get ?w ''https://img.example/gone.jpg'' r
              = Returns \<lparr> status_code = 404, content = [] \<rparr>" for r
    by (simp add: sample_world_def)
  have s: "raise_for_status \<lparr> status_code = 404, content = [] \<rparr> = Raises (HTTPError 404)"
    by (simp add: raise_for_status_def)
  note t1 = download_image_never_raises
              [of ?w "''https://img.example/missing.jpg''" "''https://mangapark.net/title/1/c1''" 4
                  "''downloads/Chapter 1''" "''Chapter 1''" Map.empty,
               THEN conjunct2, THEN conjunct1, rule_format]
  note t2 = download_image_never_raises
              [of ?w "''https://img.example/gone.jpg''" "''https://mangapark.net/title/1/c1''" 5
                  "''downloads/Chapter 1''" "''Chapter 1''" Map.empty,
               THEN conjunct2, THEN conjunct1, rule_format]
  have "download_image ?w ''https://img.example/missing.jpg''
       ''https://mangapark.net/title/1/c1'' 4 ''downloads/Chapter 1'' ''Chapter 1'' Map.empty
     = (Returns (4, None, False), Map.empty)"
    by (rule t1) (rule disjI1, rule exI, rule g1)
  moreover have "download_image ?w ''https://img.example/gone.jpg''
       ''https://mangapark.net/title/1/c1'' 5 ''downloads/Chapter 1'' ''Chapter 1'' Map.empty
     = (Returns (5, None, False), Map.empty)"
    by (rule t2) (rule disjI2, intro exI conjI, rule g2, rule s)
  ultimately show ?thesis by (intro conjI)
qed

text \<open>
  C5 at the URL \<^verbatim>\<open>https://img.example/p/001.png?sig=ab.gif\<close>. The worker takes the text
  after the last dot of the whole URL and only then cuts it at the question mark, so a dot
  inside the query string decides the extension: the file is written as
  \<^verbatim>\<open>temp_000.gif\<close>, while the trailing path segment with the query string stripped is
  \<^verbatim>\<open>001.png\<close> and its extension \<^verbatim>\<open>png\<close> is in the allow-list.
\<close>

theorem download_image_extension_query_dot:
  "file_extension ''https://img.example/p/001.png?sig=ab.gif'' = ''gif''
   \<and> spec_file_extension ''https://img.example/p/001.png?sig=ab.gif'' = ''png''
   \<and> download_image (sample_world (Returns (800, 1200)))
        ''https://img.example/p/001.png?sig=ab.gif'' ''https://mangapark.net/title/1/c1'' 0
        ''downloads/Chapter 1'' ''Chapter 1'' Map.empty
      = (Returns (0, Some ''downloads/Chapter 1/temp_000.gif'', True),
         [''downloads/Chapter 1/temp_000.gif'' \<mapsto> replicate 51200 0])"
proof -
  have e: "file_extension ''https://img.example/p/001.png?sig=ab.gif'' = ''gif''"
    by (simp add: file_extension_def url_extension_def image_extensions_def lower_def lower_char_def)
  have s: "spec_file_extension ''https://img.example/p/001.png?sig=ab.gif'' = ''png''"
    by (simp add: spec_file_extension_def spec_url_extension_def image_extensions_def lower_def
        lower_char_def)
  have f: "fmt03d 0 = ''000''" by code_simp
  have p: "image_temp_path ''downloads/Chapter 1'' 0 ''https://img.example/p/001.png?sig=ab.gif''
             = ''downloads/Chapter 1/temp_000.gif''"
    by (simp add: image_temp_path_def e f path_join_def)
  have v: "is_valid_manga_image (sample_world (Returns (800, 1200))) (replicate 51200 0)
             = Returns True"
    by (simp add: is_valid_manga_image_def is_valid_manga_image_with_def
        is_valid_manga_image_try_def truediv_def sample_world_def)
  have d: "download_image (sample_world (Returns (800, 1200)))
        ''https://img.example/p/001.png?sig=ab.gif'' ''https://mangapark.net/title/1/c1'' 0
        ''downloads/Chapter 1'' ''Chapter 1'' Map.empty
      = (Returns (0, Some ''downloads/Chapter 1/temp_000.gif'', True),
         [''downloads/Chapter 1/temp_000.gif'' \<mapsto> replicate 51200 0])"
    unfolding download_image_def download_image_try_def write_file_def p
    by (simp add: sample_world_def raise_for_status_def v [unfolded sample_world_def] Let_def)
  from e s d show ?thesis by (intro conjI)
qed


section \<open>Formatted numbers and paths\<close>


























section \<open>The worker as a function of its task\<close>




lemma download_image_eq:
  "download_image w img_url referer i chapter_dir chapter_title files =
     (Returns (worker_result w referer chapter_dir (i, img_url)),
      worker_effect w referer chapter_dir (i, img_url) files)"
proof (cases "requests_get w img_url referer")
  case (Raises e)
  then show ?thesis
    by (simp add: download_image_def download_image_try_def worker_result_def worker_effect_def
        accepted_def opened_def)
next
  case (Returns r)
  obtain b where b: "is_valid_manga_image w (content r) = Returns b"
    using is_valid_manga_image_char [of w "content r"] by blast
  have pl: "payload w referer img_url = content r"
    by (simp add: payload_def Returns)
  show ?thesis
  proof (cases "raise_for_status r")
    case (Raises e)
    with Returns show ?thesis
      by (simp add: download_image_def download_image_try_def worker_result_def worker_effect_def
          accepted_def opened_def)
  next
    case ok: (Returns u)
    show ?thesis
    proof (cases b)
      case False
      with Returns ok b show ?thesis
        by (simp add: download_image_def download_image_try_def worker_result_def
            worker_effect_def accepted_def opened_def)
    next
      case True
      show ?thesis
      proof (cases "open_write w (image_temp_path chapter_dir i img_url)")
        case (Raises e)
        with Returns ok b True show ?thesis
          by (simp add: download_image_def download_image_try_def write_file_def
              worker_result_def worker_effect_def accepted_def opened_def Let_def)
      next
        case op: (Returns v)
        have o: "opened w referer chapter_dir (i, img_url)"
          using Returns ok b True op by (simp add: opened_def)
        show ?thesis
        proof (cases "write_data w (image_temp_path chapter_dir i img_url) (content r)")
          case None
          with Returns ok b True op o show ?thesis
            by (simp add: download_image_def download_image_try_def write_file_def
                worker_result_def worker_effect_def accepted_def stored_def pl Let_def)
        next
          case (Some failure)
          obtain e written where f: "failure = (e, written)" by (cases failure)
          from Some Returns ok b True op o show ?thesis
            by (simp add: download_image_def download_image_try_def write_file_def
                worker_result_def worker_effect_def accepted_def stored_def pl f Let_def)
        qed
      qed
    qed
  qed
qed

lemma worker_result_fst [simp]: "fst (worker_result w referer chapter_dir task) = fst task"
  by (cases task) (simp add: worker_result_def)

lemma worker_result_accepted [simp]:
  "snd (snd (worker_result w referer chapter_dir task)) = accepted w referer chapter_dir task"
  by (cases task) (simp add: worker_result_def)

lemma image_pool_eq:
  "image_pool w referer chapter_dir chapter_title tasks files results =
     (Returns (results @ map (worker_result w referer chapter_dir)
                           (filter (accepted w referer chapter_dir) tasks)),
      fold (worker_effect w referer chapter_dir) tasks files)"
proof (induction tasks arbitrary: files results)
  case Nil
  show ?case by simp
next
  case (Cons task tasks)
  obtain i img_url where task: "task = (i, img_url)" by (cases task)
  show ?case
    unfolding task image_pool.simps download_image_eq
    by (simp add: Cons.IH)
qed

section \<open>Sorting the collected results\<close>

lemma enumerate_fst_inj:
  assumes "s \<in> set (enumerate n xs)" and "t \<in> set (enumerate n xs)" and "fst s = fst t"
  shows "s = t"
proof -
  have "distinct (map fst (enumerate n xs))" by simp
  then have "inj_on fst (set (enumerate n xs))" by (simp only: distinct_map)
  with assms show ?thesis by (auto dest: inj_onD)
qed





section \<open>The files after the pool and after the renaming loop\<close>















lemma final_paths_length [simp]: "length (final_paths chapter_dir c tasks) = length tasks"
  by (simp add: final_paths_def)












section \<open>Assembly of a chapter\<close>







section \<open>What the pool collects\<close>

text \<open>
  C3 as stated, at three tasks of which the second meets a transport error: the loop over
  the completed futures appends a result only when its third component is true, so the
  collected list holds the results of the tasks 0 and 2 and none for the task 1.
\<close>

theorem image_pool_drops_failed_counterexample:
  "fst (image_pool (sample_world (Returns (800, 1200))) ''https://mangapark.net/title/1/c1''
          ''downloads/Chapter 1'' ''Chapter 1''
          [(0, ''https://img.example/a/1.jpg''), (1, ''https://img.example/missing.jpg''),
           (2, ''https://img.example/a/3.PNG?v=2'')] Map.empty [])
     = Returns [(0, Some ''downloads/Chapter 1/temp_000.jpg'', True),
                (2, Some ''downloads/Chapter 1/temp_002.png'', True)]
   \<and> fst (download_image (sample_world (Returns (800, 1200))) ''https://img.example/missing.jpg''
            ''https://mangapark.net/title/1/c1'' 1 ''downloads/Chapter 1'' ''Chapter 1'' Map.empty)
     = Returns (1, None, False)
   \<and> (1::nat, None, False) \<notin> set [(0, Some ''downloads/Chapter 1/temp_000.jpg'', True),
                                (2, Some ''downloads/Chapter 1/temp_002.png'', True)]"
proof -
  let ?w = "sample_world (Returns (800, 1200))"
  let ?ref = "''https://mangapark.net/title/1/c1''"
  let ?dir = "''downloads/Chapter 1''"
  let ?u1 = "''https://img.example/a/1.jpg''"
  let ?u2 = "''https://img.example/missing.jpg''"
  let ?u3 = "''https://img.example/a/3.PNG?v=2''"
  have valid: "is_valid_manga_image ?w (replicate 51200 0) = Returns True"
    by (simp add: is_valid_manga_image_char sample_world_def)
  have get1: "requests_get ?w ?u1 ?ref = Returns \<lparr> status_code = 200, content = replicate 51200 0 \<rparr>"
    and get2: "requests_get ?w ?u2 ?ref = Raises ConnectionError"
    and get3: "requests_get ?w ?u3 ?ref = Returns \<lparr> status_code = 200, content = replicate 51200 0 \<rparr>"
    by (simp_all add: sample_world_def)
  have wr: "open_write ?w p = Returns ()" "write_data ?w p d = None" for p d
    by (simp_all add: sample_world_def)
  have acc: "accepted ?w ?ref ?dir (i, ?u1)" "\<not> accepted ?w ?ref ?dir (i, ?u2)"
    "accepted ?w ?ref ?dir (i, ?u3)" for i
    by (simp_all add: accepted_def opened_def get1 get2 get3 raise_for_status_def valid wr)
  have f: "fmt03d 0 = ''000''" "fmt03d 2 = ''002''"
    by code_simp+
  have e: "file_extension ?u1 = ''jpg''" "file_extension ?u3 = ''png''"
    by (simp_all add: file_extension_def url_extension_def image_extensions_def lower_def
        lower_char_def)
  have t: "image_temp_path ?dir 0 ?u1 = ''downloads/Chapter 1/temp_000.jpg''"
    "image_temp_path ?dir 2 ?u3 = ''downloads/Chapter 1/temp_002.png''"
    by (simp_all add: image_temp_path_def f e path_join_def)
  have r: "worker_result ?w ?ref ?dir (0, ?u1) = (0, Some ''downloads/Chapter 1/temp_000.jpg'', True)"
    "worker_result ?w ?ref ?dir (2, ?u3) = (2, Some ''downloads/Chapter 1/temp_002.png'', True)"
    by (simp_all add: worker_result_def acc t)
  have r2: "worker_result ?w ?ref ?dir (i, ?u2) = (i, None, False)" for i
    by (simp add: worker_result_def acc)
  have "fst (image_pool ?w ?ref ?dir ''Chapter 1'' [(0, ?u1), (1, ?u2), (2, ?u3)] Map.empty [])
          = Returns [(0, Some ''downloads/Chapter 1/temp_000.jpg'', True),
                     (2, Some ''downloads/Chapter 1/temp_002.png'', True)]"
    by (simp add: image_pool_eq acc r)
  moreover
  have "fst (download_image ?w ?u2 ?ref 1 ?dir ''Chapter 1'' Map.empty) = Returns (1, None, False)"
    by (simp add: download_image_eq r2)
  ultimately show ?thesis by simp
qed

text \<open>
  C3 as amended. For every list of image tasks and every order of completion, each worker
  returns one result that carries the index of its task, with \<open>accepted = False\<close> when the
  task is not accepted; the pool never raises; and the collected list holds exactly one
  result for every accepted task, none twice, each with \<open>accepted = True\<close>, and no result
  for a task that failed or was rejected.
\<close>

theorem image_pool_collects_accepted:
  assumes "mset completed = mset (enumerate 0 urls)"
  shows "let results = map (worker_result w referer chapter_dir)
                         (filter (accepted w referer chapter_dir) completed)
         in fst (image_pool w referer chapter_dir chapter_title completed files []) = Returns results
          \<and> mset (map fst results) = mset (map fst (accepted_tasks w referer chapter_dir urls))
          \<and> distinct (map fst results)
          \<and> (\<forall>r \<in> set results. snd (snd r))
          \<and> (\<forall>t \<in> set (enumerate 0 urls).
                fst (download_image w (snd t) referer (fst t) chapter_dir chapter_title files)
                  = Returns (worker_result w referer chapter_dir t)
                \<and> fst (worker_result w referer chapter_dir t) = fst t
                \<and> (fst t \<in> fst ` set results \<longleftrightarrow> accepted w referer chapter_dir t)
                \<and> (\<not> accepted w referer chapter_dir t
                     \<longrightarrow> worker_result w referer chapter_dir t = (fst t, None, False)))"
proof -
  let ?acc = "accepted w referer chapter_dir"
  let ?res = "worker_result w referer chapter_dir"
  let ?results = "map ?res (filter ?acc completed)"
  have keys: "map fst ?results = map fst (filter ?acc completed)"
    by (simp add: comp_def)
  have set_eq: "set completed = set (enumerate 0 urls)"
    using assms by (rule mset_eq_setD)
  have "distinct (map fst (enumerate 0 urls))" by simp
  moreover have "mset (map fst completed) = mset (map fst (enumerate 0 urls))"
    using arg_cong [OF assms, of "image_mset fst"] by (simp only: mset_map)
  ultimately have d: "distinct (map fst completed)"
    by (metis mset_eq_imp_distinct_iff)
  have 1: "fst (image_pool w referer chapter_dir chapter_title completed files []) = Returns ?results"
    by (simp add: image_pool_eq)
  have 2: "mset (map fst ?results) = mset (map fst (accepted_tasks w referer chapter_dir urls))"
    unfolding keys accepted_tasks_def using assms by (simp add: mset_filter)
  have 3: "distinct (map fst ?results)"
    unfolding keys using d by (rule distinct_map_filter)
  have 4: "\<forall>r \<in> set ?results. snd (snd r)"
    by auto
  have 5: "fst (download_image w (snd t) referer (fst t) chapter_dir chapter_title files)
             = Returns (?res t)
           \<and> fst (?res t) = fst t
           \<and> (fst t \<in> fst ` set ?results \<longleftrightarrow> ?acc t)
           \<and> (\<not> ?acc t \<longrightarrow> ?res t = (fst t, None, False))"
    if t: "t \<in> set (enumerate 0 urls)" for t
  proof -
    have "fst t \<in> fst ` set ?results \<longleftrightarrow> ?acc t"
    proof
      assume "fst t \<in> fst ` set ?results"
      then obtain s where s: "s \<in> set completed" "?acc s" "fst s = fst t"
        by (auto simp: image_iff)
      with t set_eq have "s = t" by (auto intro: enumerate_fst_inj)
      with s show "?acc t" by simp
    next
      assume "?acc t"
      with t set_eq have "t \<in> set (filter ?acc completed)" by simp
      then have "fst (?res t) \<in> fst ` set ?results" by (intro imageI) simp
      then show "fst t \<in> fst ` set ?results" by simp
    qed
    moreover have "\<not> ?acc t \<longrightarrow> ?res t = (fst t, None, False)"
      by (cases t) (simp add: worker_result_def)
    ultimately show ?thesis
      by (cases t) (simp add: download_image_eq)
  qed
  show ?thesis
    unfolding Let_def using 1 2 3 4 5 by blast
qed

theorem image_pool_collects_accepted_witness:
  "fst (image_pool (sample_world (Returns (800, 1200))) ''https://mangapark.net/title/1/c1''
          ''downloads/Chapter 1'' ''Chapter 1''
          (rev (enumerate 0 [''https://img.example/a/1.jpg'', ''https://img.example/missing.jpg'',
                             ''https://img.example/a/3.PNG?v=2''])) Map.empty [])
     = Returns (map (worker_result (sample_world (Returns (800, 1200)))
                       ''https://mangapark.net/title/1/c1'' ''downloads/Chapter 1'')
                  (filter (accepted (sample_world (Returns (800, 1200)))
                             ''https://mangapark.net/title/1/c1'' ''downloads/Chapter 1'')
                     (rev (enumerate 0 [''https://img.example/a/1.jpg'',
                                        ''https://img.example/missing.jpg'',
                                        ''https://img.example/a/3.PNG?v=2'']))))"
proof -
  have perm: "mset (rev (enumerate 0 [''https://img.example/a/1.jpg'',
                                      ''https://img.example/missing.jpg'',
                                      ''https://img.example/a/3.PNG?v=2'']))
                = mset (enumerate 0 [''https://img.example/a/1.jpg'',
                                     ''https://img.example/missing.jpg'',
                                     ''https://img.example/a/3.PNG?v=2''])"
    by (rule mset_rev)
  show ?thesis
    using image_pool_collects_accepted [OF perm, unfolded Let_def, THEN conjunct1] .
qed


section \<open>A chapter without image URLs\<close>

lemma write_file_cases:
  "write_file w path data files =
     (case open_write w path of
        Raises e \<Rightarrow> (Raises e, files)
      | Returns u \<Rightarrow>
          (case data of
             Raises e \<Rightarrow> (Raises e, files(path \<mapsto> []))
           | Returns bytes \<Rightarrow>
               (case write_data w path bytes of
                  Some failure \<Rightarrow> (Raises (fst failure), files(path \<mapsto> take (snd failure) bytes))
                | None \<Rightarrow> (Returns (), files(path \<mapsto> bytes)))))"
  by (simp add: write_file_def split: outcome.split option.split prod.split)

lemma write_file_frame:
  "p \<noteq> path \<Longrightarrow> snd (write_file w path data files) p = files p"
  by (simp add: write_file_cases split: outcome.split option.split)

lemma write_file_unopened:
  "open_write w path \<noteq> Returns () \<Longrightarrow> snd (write_file w path data files) = files"
  by (cases "open_write w path") (simp_all add: write_file_cases)

lemma write_file_opened:
  assumes "open_write w path = Returns ()"
  shows "\<exists>bytes. snd (write_file w path data files) = files(path \<mapsto> bytes)
           \<and> (\<forall>source. data = Returns source
                  \<longrightarrow> (\<exists>written. bytes = take written source)
                      \<and> (write_data w path source = None \<longrightarrow> bytes = source))
           \<and> ((\<exists>e. data = Raises e) \<longrightarrow> bytes = [])"
proof (cases data)
  case (Raises e)
  with assms have "snd (write_file w path data files) = files(path \<mapsto> [])"
    by (simp add: write_file_cases)
  with Raises show ?thesis by simp
next
  case (Returns source)
  show ?thesis
  proof (cases "write_data w path source")
    case None
    with assms Returns have "snd (write_file w path data files) = files(path \<mapsto> source)"
      by (simp add: write_file_cases)
    moreover have "source = take (length source) source" by simp
    ultimately show ?thesis using Returns None by blast
  next
    case (Some failure)
    with assms Returns
    have "snd (write_file w path data files) = files(path \<mapsto> take (snd failure) source)"
      by (simp add: write_file_cases)
    with Returns Some show ?thesis by auto
  qed
qed

text \<open>
  C8 as stated, at a chapter page without any image element: the function returns the
  directory with \<open>success = False\<close>, and it has written the page source to
  \<^verbatim>\<open>debug_page.html\<close> inside the chapter directory, a file that was not there before.
\<close>

theorem empty_chapter_writes_debug_page_counterexample:
  "download_chapter_with_selenium (sample_world (Returns (800, 1200))) ''/title/1/c2'' ''Chapter 2''
       3 rev Map.empty
     = (Returns (''downloads/Chapter 2'', False),
        [''downloads/Chapter 2/debug_page.html'' \<mapsto> [60, 104, 62]])
   \<and> image_urls \<lparr> primary_images = [], fallback_images = [],
                   page_source = Returns [60, 104, 62] \<rparr> = []
   \<and> [''downloads/Chapter 2/debug_page.html'' \<mapsto> [60, 104, 62 :: byte]] \<noteq> Map.empty"
proof -
  let ?w = "sample_world (Returns (800, 1200))"
  have ref: "urljoin ?w ''https://mangapark.net'' ''/title/1/c2'' = ''https://mangapark.net/title/1/c2''"
    by (simp add: sample_world_def)
  have page: "browse ?w ''https://mangapark.net/title/1/c2''
                = Returns \<lparr> primary_images = [], fallback_images = [],
                            page_source = Returns [60, 104, 62] \<rparr>"
    by (simp add: sample_world_def)
  have dir: "chapter_directory ''Chapter 2'' = ''downloads/Chapter 2''"
    by (simp add: chapter_directory_def replace_chr_def path_join_def)
  have dbg: "path_join ''downloads/Chapter 2'' ''debug_page.html''
               = ''downloads/Chapter 2/debug_page.html''"
    by (simp add: path_join_def)
  have wr: "open_write ?w p = Returns ()" "write_data ?w p d = None" for p d
    by (simp_all add: sample_world_def)
  have env: "makedirs ?w p = Returns ()" "initialize_browser ?w = Returns ()"
    "driver_quit ?w = Returns ()" for p
    by (simp_all add: sample_world_def)
  have "download_chapter_with_selenium ?w ''/title/1/c2'' ''Chapter 2'' 3 rev Map.empty
          = (Returns (''downloads/Chapter 2'', False),
             [''downloads/Chapter 2/debug_page.html'' \<mapsto> [60, 104, 62]])"
    unfolding download_chapter_with_selenium_def download_chapter_except_def
      download_chapter_try_def Let_def ref page dir dbg env
    by (simp add: image_elements_def write_file_def wr)
  moreover
  have "image_urls \<lparr> primary_images = [], fallback_images = [],
                     page_source = Returns [60, 104, 62] \<rparr> = []"
    by (simp add: image_urls_def image_elements_def)
  moreover
  have "[''downloads/Chapter 2/debug_page.html'' \<mapsto> [60, 104, 62 :: byte]] \<noteq> Map.empty"
    by simp
  ultimately show ?thesis by (intro conjI)
qed

text \<open>
  C8 as amended. Take a chapter whose directory is created, whose browser starts and is
  closed without error, and whose page is fetched and yields an empty list of image URLs.
  The function returns the chapter directory with \<open>success = False\<close>; when the body returns
  normally its counter of renamed images is 0 and its list of final paths is empty; no
  image file is created. When the page has image elements, none with a source, the files
  are left as they were. When the page has no image element at all, the only file touched
  is \<^verbatim>\<open>debug_page.html\<close> in the chapter directory: nothing changes when it cannot be
  opened; once it is opened it exists, and it holds the page source when the write
  succeeds, the part of the page source written before the failure when the write fails,
  and nothing when reading the page source fails.
\<close>

theorem empty_chapter_outcome:
  assumes "makedirs w (chapter_directory chapter_title) = Returns ()"
    and "initialize_browser w = Returns ()"
    and "browse w (urljoin w ''https://mangapark.net'' chapter_url) = Returns pg"
    and "image_urls pg = []"
    and "schedule [] = []"
    and "driver_quit w = Returns ()"
  shows "let chapter_dir = chapter_directory chapter_title;
             debug_page = path_join chapter_dir ''debug_page.html'';
             run = download_chapter_with_selenium w chapter_url chapter_title workers schedule files;
             body = download_chapter_try w chapter_url chapter_title workers schedule files;
             after = snd run
         in fst run = Returns (chapter_dir, False)
          \<and> (\<forall>d s c paths. fst body = Returns (d, s, c, paths) \<longrightarrow> \<not> s \<and> c = 0 \<and> paths = [])
          \<and> (image_elements pg \<noteq> [] \<longrightarrow> after = files)
          \<and> (image_elements pg = [] \<and> open_write w debug_page \<noteq> Returns ()
                \<longrightarrow> after = files)
          \<and> (image_elements pg = [] \<and> open_write w debug_page = Returns ()
                \<longrightarrow> (\<exists>bytes. after = files(debug_page \<mapsto> bytes)
                       \<and> (\<forall>source. page_source pg = Returns source
                              \<longrightarrow> (\<exists>written. bytes = take written source)
                                  \<and> (write_data w debug_page source = None
                                        \<longrightarrow> bytes = source))
                       \<and> ((\<exists>e. page_source pg = Raises e) \<longrightarrow> bytes = [])))
          \<and> (\<forall>p. p \<noteq> debug_page \<longrightarrow> after p = files p)"
proof -
  let ?dir = "chapter_directory chapter_title"
  let ?dbg = "path_join ?dir ''debug_page.html''"
  let ?ref = "urljoin w ''https://mangapark.net'' chapter_url"
  let ?body = "download_chapter_try w chapter_url chapter_title workers schedule files"
  let ?written = "write_file w ?dbg (page_source pg) files"
  have wrapped: "download_chapter_with_selenium w chapter_url chapter_title workers schedule files
                   = (Returns (?dir, False), snd ?body)"
    if "fst ?body = Returns (?dir, False, c, paths) \<or> fst ?body = Raises e" for c paths e
    using that
    by (cases ?body)
      (auto simp: download_chapter_with_selenium_def download_chapter_except_def assms(1,2,6)
        Let_def)
  show ?thesis
  proof (cases "image_elements pg = []")
    case True
    have body: "?body = (case fst ?written of
                           Raises e \<Rightarrow> Raises e
                         | Returns u \<Rightarrow> Returns (?dir, False, 0, []),
                         snd ?written)"
      by (cases ?written)
        (simp add: download_chapter_try_def assms(3) True Let_def split: outcome.split)
    then have after: "snd ?body = snd ?written" by simp
    have "(\<exists>e. fst ?body = Raises e) \<or> fst ?body = Returns (?dir, False, 0, [])"
      unfolding body by (cases "fst ?written") simp_all
    then have run: "download_chapter_with_selenium w chapter_url chapter_title workers schedule
                      files = (Returns (?dir, False), snd ?written)"
      and ret: "\<forall>d s c paths. fst ?body = Returns (d, s, c, paths) \<longrightarrow> \<not> s \<and> c = 0 \<and> paths = []"
      using wrapped [of 0 "[]"] after by auto
    have closed: "open_write w ?dbg \<noteq> Returns () \<longrightarrow> snd ?written = files"
      using write_file_unopened by blast
    have opened: "open_write w ?dbg = Returns ()
                    \<longrightarrow> (\<exists>bytes. snd ?written = files(?dbg \<mapsto> bytes)
                           \<and> (\<forall>source. page_source pg = Returns source
                                  \<longrightarrow> (\<exists>written. bytes = take written source)
                                      \<and> (write_data w ?dbg source = None \<longrightarrow> bytes = source))
                           \<and> ((\<exists>e. page_source pg = Raises e) \<longrightarrow> bytes = []))"
      using write_file_opened by blast
    have frame: "\<forall>p. p \<noteq> ?dbg \<longrightarrow> snd ?written p = files p"
      using write_file_frame by blast
    show ?thesis
      unfolding Let_def run fst_conv snd_conv
      using True ret closed opened frame by (intro conjI) (simp_all only: simp_thms)
  next
    case False
    have pool: "image_pool w ?ref ?dir chapter_title (schedule (enumerate 0 (image_urls pg))) files []
                  = (Returns [], files)"
      by (simp add: assms(4,5))
    have body: "?body = (if workers \<le> 0 then Raises ValueError
                         else Returns (?dir, False, 0, []), files)"
      unfolding download_chapter_try_def Let_def assms(3)
      by (simp add: False thread_pool_executor_def pool)
    then have run: "download_chapter_with_selenium w chapter_url chapter_title workers schedule
                      files = (Returns (?dir, False), files)"
      and ret: "\<forall>d s c paths. fst ?body = Returns (d, s, c, paths) \<longrightarrow> \<not> s \<and> c = 0 \<and> paths = []"
      using wrapped [of 0 "[]" ValueError] by (auto split: if_splits)
    show ?thesis
      unfolding Let_def run fst_conv snd_conv
      using False ret by (intro conjI) (simp_all only: simp_thms)
  qed
qed

theorem empty_chapter_outcome_witness:
  "fst (download_chapter_with_selenium (sample_world (Returns (800, 1200))) ''/title/1/c2''
          ''Chapter 2'' 3 rev Map.empty)
     = Returns (chapter_directory ''Chapter 2'', False)
   \<and> snd (download_chapter_with_selenium (sample_world (Returns (800, 1200))) ''/title/1/c2''
          ''Chapter 2'' 3 rev Map.empty)
     = [path_join (chapter_directory ''Chapter 2'') ''debug_page.html'' \<mapsto> [60, 104, 62]]"
proof -
  let ?w = "sample_world (Returns (800, 1200))"
  let ?pg = "\<lparr> primary_images = [], fallback_images = [],
               page_source = Returns [60, 104, 62 :: byte] \<rparr>"
  let ?dbg = "path_join (chapter_directory ''Chapter 2'') ''debug_page.html''"
  let ?after = "snd (download_chapter_with_selenium ?w ''/title/1/c2'' ''Chapter 2'' 3 rev Map.empty)"
  have ref: "urljoin ?w ''https://mangapark.net'' ''/title/1/c2'' = ''https://mangapark.net/title/1/c2''"
    by (simp add: sample_world_def)
  have page: "browse ?w (urljoin ?w ''https://mangapark.net'' ''/title/1/c2'') = Returns ?pg"
    unfolding ref by (simp add: sample_world_def)
  have urls: "image_urls ?pg = []"
    by (simp add: image_urls_def image_elements_def)
  have sched: "rev ([] :: (nat \<times> string) list) = []" by simp
  have elems: "image_elements ?pg = []"
    by (simp add: image_elements_def)
  have wr: "open_write ?w p = Returns ()" "write_data ?w p d = None" for p d
    by (simp_all add: sample_world_def)
  have env: "makedirs ?w p = Returns ()" "initialize_browser ?w = Returns ()"
    "driver_quit ?w = Returns ()" for p
    by (simp_all add: sample_world_def)
  note inst = empty_chapter_outcome
                [where schedule = rev and files = Map.empty and chapter_title = "''Chapter 2''"
                   and workers = 3, OF env(1) env(2) page urls sched env(3), unfolded Let_def]
  have "image_elements ?pg = [] \<and> open_write ?w ?dbg = Returns ()"
    using elems wr(1) by (rule conjI)
  from inst [THEN conjunct2, THEN conjunct2, THEN conjunct2, THEN conjunct2, THEN conjunct1,
      rule_format, OF this]
  obtain bytes where after: "?after = Map.empty(?dbg \<mapsto> bytes)"
    and full: "\<forall>source. page_source ?pg = Returns source
                 \<longrightarrow> (\<exists>written. bytes = take written source)
                     \<and> (write_data ?w ?dbg source = None \<longrightarrow> bytes = source)"
    by blast
  have "page_source ?pg = Returns [60, 104, 62]" by simp
  with full wr(2) have "bytes = [60, 104, 62]" by blast
  with after have "?after = [?dbg \<mapsto> [60, 104, 62]]" by simp
  with inst [THEN conjunct1] show ?thesis by (rule conjI)
qed


section \<open>Properties of the converters\<close>

lemma create_cbz_returns: "\<exists>path. create_cbz h ds chapter_dir chapter_title = Returns path"
  by (simp add: create_cbz_def split: outcome.split)

lemma create_pdf_returns: "\<exists>path. create_pdf h ds chapter_dir chapter_title = Returns path"
  by (simp add: create_pdf_def split: outcome.split)

lemma create_cbz_missing:
  "os_listdir ds chapter_dir = Raises e \<Longrightarrow> create_cbz h ds chapter_dir chapter_title = Returns None"
  by (simp add: create_cbz_def create_cbz_try_def)

lemma create_pdf_missing:
  "os_listdir ds chapter_dir = Raises e \<Longrightarrow> create_pdf h ds chapter_dir chapter_title = Returns None"
  by (simp add: create_pdf_def create_pdf_try_def)

lemma create_cbz_listed:
  assumes "os_listdir ds chapter_dir = Returns names"
  shows "create_cbz h ds chapter_dir chapter_title =
           Returns (if listed_images cbz_suffixes chapter_dir names = [] then None
                    else case zip_write h (chapter_dir @ ''.cbz'')
                                (map (\<lambda>img_file. (img_file, basename img_file))
                                   (sort (listed_images cbz_suffixes chapter_dir names))) of
                           Raises e \<Rightarrow> None
                         | Returns u \<Rightarrow> Some (chapter_dir @ ''.cbz''))"
  using assms
  by (simp add: create_cbz_def create_cbz_try_def Let_def split: outcome.split)

lemma create_pdf_listed:
  assumes "os_listdir ds chapter_dir = Returns names"
  shows "create_pdf h ds chapter_dir chapter_title =
           Returns (if listed_images pdf_suffixes chapter_dir names = [] then None
                    else case open_output h (chapter_dir @ ''.pdf'') of
                           Raises e \<Rightarrow> None
                         | Returns u \<Rightarrow>
                             (case img2pdf_convert h
                                     (sort (listed_images pdf_suffixes chapter_dir names)) of
                                Raises e \<Rightarrow> None
                              | Returns pdf_bytes \<Rightarrow>
                                  if pdf_bytes \<noteq> [] then
                                    (case write_output h (chapter_dir @ ''.pdf'') pdf_bytes of
                                       Raises e \<Rightarrow> None
                                     | Returns u \<Rightarrow> Some (chapter_dir @ ''.pdf''))
                                  else Some (chapter_dir @ ''.pdf'')))"
proof (cases "listed_images pdf_suffixes chapter_dir names = []")
  case True
  with assms show ?thesis
    by (simp add: create_pdf_def create_pdf_try_def)
next
  case False
  show ?thesis
  proof (cases "open_output h (chapter_dir @ ''.pdf'')")
    case (Raises e)
    with assms False show ?thesis
      by (simp add: create_pdf_def create_pdf_try_def Let_def)
  next
    case opened: (Returns u)
    show ?thesis
    proof (cases "img2pdf_convert h (sort (listed_images pdf_suffixes chapter_dir names))")
      case (Raises e)
      with assms False opened show ?thesis
        by (simp add: create_pdf_def create_pdf_try_def Let_def)
    next
      case (Returns pdf_bytes)
      with assms False opened show ?thesis
        by (cases "write_output h (chapter_dir @ ''.pdf'') pdf_bytes")
          (simp_all add: create_pdf_def create_pdf_try_def Let_def)
    qed
  qed
qed

lemma create_cbz_absent_iff:
  "create_cbz h ds chapter_dir chapter_title = Returns None \<longleftrightarrow>
     (\<exists>e. os_listdir ds chapter_dir = Raises e)
     \<or> (\<exists>names. os_listdir ds chapter_dir = Returns names
           \<and> (listed_images cbz_suffixes chapter_dir names = []
                \<or> (\<exists>e. zip_write h (chapter_dir @ ''.cbz'')
                           (map (\<lambda>img_file. (img_file, basename img_file))
                              (sort (listed_images cbz_suffixes chapter_dir names)))
                         = Raises e)))"
proof (cases "os_listdir ds chapter_dir")
  case (Raises e)
  then show ?thesis by (simp add: create_cbz_missing)
next
  case (Returns names)
  then show ?thesis
    by (simp add: create_cbz_listed split: outcome.split)
qed

lemma create_pdf_absent_iff:
  "create_pdf h ds chapter_dir chapter_title = Returns None \<longleftrightarrow>
     (\<exists>e. os_listdir ds chapter_dir = Raises e)
     \<or> (\<exists>names. os_listdir ds chapter_dir = Returns names
           \<and> (listed_images pdf_suffixes chapter_dir names = []
                \<or> (\<exists>e. open_output h (chapter_dir @ ''.pdf'') = Raises e)
                \<or> (\<exists>e. img2pdf_convert h (sort (listed_images pdf_suffixes chapter_dir names))
                         = Raises e)
                \<or> (\<exists>pdf_bytes e.
                      img2pdf_convert h (sort (listed_images pdf_suffixes chapter_dir names))
                        = Returns pdf_bytes
                      \<and> pdf_bytes \<noteq> []
                      \<and> write_output h (chapter_dir @ ''.pdf'') pdf_bytes = Raises e)))"
proof (cases "os_listdir ds chapter_dir")
  case (Raises e)
  then show ?thesis by (simp add: create_pdf_missing)
next
  case (Returns names)
  then show ?thesis
    by (auto simp: create_pdf_listed split: outcome.split)
qed

lemma pdf_suffixes_strict:
  "set pdf_suffixes \<subset> set cbz_suffixes" "''.webp'' \<notin> set pdf_suffixes"
  "''.gif'' \<notin> set pdf_suffixes"
proof -
  have sub: "set pdf_suffixes \<subseteq> set cbz_suffixes"
    by (simp add: pdf_suffixes_def cbz_suffixes_def)
  have inside: "''.webp'' \<in> set cbz_suffixes"
    by (simp add: cbz_suffixes_def)
  show outside: "''.webp'' \<notin> set pdf_suffixes" "''.gif'' \<notin> set pdf_suffixes"
    by (simp_all add: pdf_suffixes_def)
  from sub inside outside(1) show "set pdf_suffixes \<subset> set cbz_suffixes"
    by blast
qed

lemma listed_images_pdf_subset:
  "set (listed_images pdf_suffixes chapter_dir names)
     \<subseteq> set (listed_images cbz_suffixes chapter_dir names)"
proof -
  have "endswith s pdf_suffixes \<Longrightarrow> endswith s cbz_suffixes" for s
    using pdf_suffixes_strict(1) unfolding endswith_def by blast
  then show ?thesis
    unfolding listed_images_def by auto
qed

lemma endswith_iff:
  "endswith s suffixes \<longleftrightarrow> (\<exists>t \<in> set suffixes. \<exists>stem. s = stem @ t)"
proof -
  have "take (length t) (rev s) = rev t \<longleftrightarrow> (\<exists>stem. s = stem @ t)" for t
  proof
    assume "take (length t) (rev s) = rev t"
    then have "rev s = rev t @ drop (length t) (rev s)"
      using append_take_drop_id [of "length t" "rev s"] by simp
    then have "rev (rev s) = rev (rev t @ drop (length t) (rev s))" by (rule arg_cong)
    then have "s = rev (drop (length t) (rev s)) @ t" by simp
    then show "\<exists>stem. s = stem @ t" ..
  next
    assume "\<exists>stem. s = stem @ t"
    then obtain stem where "s = stem @ t" ..
    then show "take (length t) (rev s) = rev t" by simp
  qed
  then show ?thesis unfolding endswith_def by simp
qed

lemma suffix_sets:
  "set pdf_suffixes = {''.jpg'', ''.jpeg'', ''.png''}"
  "set cbz_suffixes = {''.jpg'', ''.jpeg'', ''.png'', ''.webp'', ''.gif''}"
  by (simp_all add: pdf_suffixes_def cbz_suffixes_def)

lemma listed_images_pdf:
  "listed_images pdf_suffixes chapter_dir names
     = map (path_join chapter_dir)
         (filter (\<lambda>file. \<exists>stem. lower file = stem @ ''.jpg'' \<or> lower file = stem @ ''.jpeg''
                                  \<or> lower file = stem @ ''.png'') names)"
proof -
  have "endswith s pdf_suffixes
          \<longleftrightarrow> (\<exists>stem. s = stem @ ''.jpg'' \<or> s = stem @ ''.jpeg'' \<or> s = stem @ ''.png'')" for s
    unfolding endswith_iff suffix_sets by blast
  then show ?thesis by (simp only: listed_images_def)
qed

lemma listed_images_cbz:
  "listed_images cbz_suffixes chapter_dir names
     = map (path_join chapter_dir)
         (filter (\<lambda>file. \<exists>stem. lower file = stem @ ''.jpg'' \<or> lower file = stem @ ''.jpeg''
                                  \<or> lower file = stem @ ''.png'' \<or> lower file = stem @ ''.webp''
                                  \<or> lower file = stem @ ''.gif'') names)"
proof -
  have "endswith s cbz_suffixes
          \<longleftrightarrow> (\<exists>stem. s = stem @ ''.jpg'' \<or> s = stem @ ''.jpeg'' \<or> s = stem @ ''.png''
                        \<or> s = stem @ ''.webp'' \<or> s = stem @ ''.gif'')" for s
    unfolding endswith_iff suffix_sets by blast
  then show ?thesis by (simp only: listed_images_def)
qed

lemma create_cbz_path:
  "create_cbz h ds chapter_dir chapter_title = Returns (Some path) \<Longrightarrow> path = chapter_dir @ ''.cbz''"
  by (cases "os_listdir ds chapter_dir")
    (auto simp: create_cbz_listed create_cbz_missing split: if_splits outcome.splits)

lemma create_pdf_path:
  "create_pdf h ds chapter_dir chapter_title = Returns (Some path) \<Longrightarrow> path = chapter_dir @ ''.pdf''"
  by (cases "os_listdir ds chapter_dir")
    (auto simp: create_pdf_listed create_pdf_missing split: if_splits outcome.splits)

text \<open>
  C6. Neither converter raises: each returns its path, the chapter directory followed by
  \<^verbatim>\<open>.cbz\<close> or \<^verbatim>\<open>.pdf\<close>, or the absent path. The archive converter returns the absent path
  exactly when the directory cannot be listed, or no listed name is eligible, or writing
  the archive raises; the document converter exactly when the directory cannot be listed,
  or no listed name is eligible, or opening the output, the encoder or the write raises.
  A name is eligible for the archive when, in lower case, it ends in \<^verbatim>\<open>.jpg\<close>, \<^verbatim>\<open>.jpeg\<close>,
  \<^verbatim>\<open>.png\<close>, \<^verbatim>\<open>.webp\<close> or \<^verbatim>\<open>.gif\<close>, and for the document when it ends in \<^verbatim>\<open>.jpg\<close>, \<^verbatim>\<open>.jpeg\<close> or
  \<^verbatim>\<open>.png\<close>: a strict subset, without \<^verbatim>\<open>.webp\<close> and \<^verbatim>\<open>.gif\<close>. So on a directory whose eligible
  files are all of these two kinds the document converter returns the absent path even
  though the archive converter returns its archive.
\<close>

theorem converters_absent_iff:
  "(\<exists>path. create_cbz h ds chapter_dir chapter_title = Returns path)
   \<and> (\<exists>path. create_pdf h ds chapter_dir chapter_title = Returns path)
   \<and> (\<forall>path. create_cbz h ds chapter_dir chapter_title = Returns (Some path)
          \<longrightarrow> path = chapter_dir @ ''.cbz'')
   \<and> (\<forall>path. create_pdf h ds chapter_dir chapter_title = Returns (Some path)
          \<longrightarrow> path = chapter_dir @ ''.pdf'')
   \<and> (create_cbz h ds chapter_dir chapter_title = Returns None \<longleftrightarrow>
        (\<exists>e. os_listdir ds chapter_dir = Raises e)
        \<or> (\<exists>names. os_listdir ds chapter_dir = Returns names
              \<and> (listed_images cbz_suffixes chapter_dir names = []
                   \<or> (\<exists>e. zip_write h (chapter_dir @ ''.cbz'')
                              (map (\<lambda>img_file. (img_file, basename img_file))
                                 (sort (listed_images cbz_suffixes chapter_dir names)))
                            = Raises e))))
   \<and> (create_pdf h ds chapter_dir chapter_title = Returns None \<longleftrightarrow>
        (\<exists>e. os_listdir ds chapter_dir = Raises e)
        \<or> (\<exists>names. os_listdir ds chapter_dir = Returns names
              \<and> (listed_images pdf_suffixes chapter_dir names = []
                   \<or> (\<exists>e. open_output h (chapter_dir @ ''.pdf'') = Raises e)
                   \<or> (\<exists>e. img2pdf_convert h (sort (listed_images pdf_suffixes chapter_dir names))
                            = Raises e)
                   \<or> (\<exists>pdf_bytes e.
                         img2pdf_convert h (sort (listed_images pdf_suffixes chapter_dir names))
                           = Returns pdf_bytes
                         \<and> pdf_bytes \<noteq> []
                         \<and> write_output h (chapter_dir @ ''.pdf'') pdf_bytes = Raises e))))
   \<and> (\<forall>names. listed_images cbz_suffixes chapter_dir names
          = map (path_join chapter_dir)
              (filter (\<lambda>file. \<exists>stem. lower file = stem @ ''.jpg'' \<or> lower file = stem @ ''.jpeg''
                                  \<or> lower file = stem @ ''.png'' \<or> lower file = stem @ ''.webp''
                                  \<or> lower file = stem @ ''.gif'') names))
   \<and> (\<forall>names. listed_images pdf_suffixes chapter_dir names
          = map (path_join chapter_dir)
              (filter (\<lambda>file. \<exists>stem. lower file = stem @ ''.jpg'' \<or> lower file = stem @ ''.jpeg''
                                  \<or> lower file = stem @ ''.png'') names))
   \<and> set cbz_suffixes = {''.jpg'', ''.jpeg'', ''.png'', ''.webp'', ''.gif''}
   \<and> set pdf_suffixes = {''.jpg'', ''.jpeg'', ''.png''}
   \<and> set pdf_suffixes \<subset> set cbz_suffixes
   \<and> ''.webp'' \<notin> set pdf_suffixes \<and> ''.gif'' \<notin> set pdf_suffixes
   \<and> (\<forall>names. set (listed_images pdf_suffixes chapter_dir names)
                  \<subseteq> set (listed_images cbz_suffixes chapter_dir names))
   \<and> (\<forall>names. ds chapter_dir = Some names
          \<and> listed_images pdf_suffixes chapter_dir names = []
          \<and> listed_images cbz_suffixes chapter_dir names \<noteq> []
          \<and> zip_write h (chapter_dir @ ''.cbz'')
                (map (\<lambda>img_file. (img_file, basename img_file))
                   (sort (listed_images cbz_suffixes chapter_dir names))) = Returns ()
        \<longrightarrow> create_pdf h ds chapter_dir chapter_title = Returns None
            \<and> create_cbz h ds chapter_dir chapter_title = Returns (Some (chapter_dir @ ''.cbz'')))"
proof -
  have both: "create_pdf h ds chapter_dir chapter_title = Returns None
              \<and> create_cbz h ds chapter_dir chapter_title = Returns (Some (chapter_dir @ ''.cbz''))"
    if "ds chapter_dir = Some names"
      and "listed_images pdf_suffixes chapter_dir names = []"
      and "listed_images cbz_suffixes chapter_dir names \<noteq> []"
      and "zip_write h (chapter_dir @ ''.cbz'')
                (map (\<lambda>img_file. (img_file, basename img_file))
                   (sort (listed_images cbz_suffixes chapter_dir names))) = Returns ()"
    for names
  proof -
    from that(1) have "os_listdir ds chapter_dir = Returns names"
      by (simp add: os_listdir_def)
    with that(2,3,4) show ?thesis
      by (simp add: create_pdf_listed create_cbz_listed)
  qed
  then have last: "\<forall>names. ds chapter_dir = Some names
          \<and> listed_images pdf_suffixes chapter_dir names = []
          \<and> listed_images cbz_suffixes chapter_dir names \<noteq> []
          \<and> zip_write h (chapter_dir @ ''.cbz'')
                (map (\<lambda>img_file. (img_file, basename img_file))
                   (sort (listed_images cbz_suffixes chapter_dir names))) = Returns ()
        \<longrightarrow> create_pdf h ds chapter_dir chapter_title = Returns None
            \<and> create_cbz h ds chapter_dir chapter_title = Returns (Some (chapter_dir @ ''.cbz''))"
    by blast
  have sub: "\<forall>names. set (listed_images pdf_suffixes chapter_dir names)
                  \<subseteq> set (listed_images cbz_suffixes chapter_dir names)"
    by (intro allI listed_images_pdf_subset)
  have cp: "\<forall>path. create_cbz h ds chapter_dir chapter_title = Returns (Some path)
              \<longrightarrow> path = chapter_dir @ ''.cbz''"
    using create_cbz_path by blast
  have pp: "\<forall>path. create_pdf h ds chapter_dir chapter_title = Returns (Some path)
              \<longrightarrow> path = chapter_dir @ ''.pdf''"
    using create_pdf_path by blast
  have lc: "\<forall>names. listed_images cbz_suffixes chapter_dir names
          = map (path_join chapter_dir)
              (filter (\<lambda>file. \<exists>stem. lower file = stem @ ''.jpg'' \<or> lower file = stem @ ''.jpeg''
                                  \<or> lower file = stem @ ''.png'' \<or> lower file = stem @ ''.webp''
                                  \<or> lower file = stem @ ''.gif'') names)"
    by (intro allI listed_images_cbz)
  have lp: "\<forall>names. listed_images pdf_suffixes chapter_dir names
          = map (path_join chapter_dir)
              (filter (\<lambda>file. \<exists>stem. lower file = stem @ ''.jpg'' \<or> lower file = stem @ ''.jpeg''
                                  \<or> lower file = stem @ ''.png'') names)"
    by (intro allI listed_images_pdf)
  show ?thesis
    by (intro conjI)
      (rule create_cbz_returns create_pdf_returns cp pp create_cbz_absent_iff create_pdf_absent_iff
         lc lp suffix_sets pdf_suffixes_strict last sub)+
qed

theorem converters_absent_iff_witness:
  "create_pdf sample_host [''downloads/Chapter 1'' \<mapsto> [''002.webp'', ''001.gif'']]
       ''downloads/Chapter 1'' ''Chapter 1'' = Returns None
   \<and> create_cbz sample_host [''downloads/Chapter 1'' \<mapsto> [''002.webp'', ''001.gif'']]
       ''downloads/Chapter 1'' ''Chapter 1'' = Returns (Some ''downloads/Chapter 1.cbz'')
   \<and> create_pdf sample_host [''downloads/Chapter 1'' \<mapsto> [''002.webp'', ''001.JPG'']]
       ''downloads/Chapter 1'' ''Chapter 1'' = Returns (Some ''downloads/Chapter 1.pdf'')"
proof -
  let ?ds = "[''downloads/Chapter 1'' \<mapsto> [''002.webp'', ''001.gif'']]"
  let ?ds' = "[''downloads/Chapter 1'' \<mapsto> [''002.webp'', ''001.JPG'']]"
  have d: "?ds ''downloads/Chapter 1'' = Some [''002.webp'', ''001.gif'']"
    by simp
  have p: "listed_images pdf_suffixes ''downloads/Chapter 1'' [''002.webp'', ''001.gif''] = []"
    by (simp add: listed_images_def pdf_suffixes_def endswith_def lower_def lower_char_def)
  have c: "listed_images cbz_suffixes ''downloads/Chapter 1'' [''002.webp'', ''001.gif''] \<noteq> []"
    by (simp add: listed_images_def cbz_suffixes_def endswith_def lower_def lower_char_def)
  have z: "zip_write sample_host path entries = Returns ()" for path entries
    by (simp add: sample_host_def)
  have "create_pdf sample_host ?ds ''downloads/Chapter 1'' ''Chapter 1'' = Returns None
        \<and> create_cbz sample_host ?ds ''downloads/Chapter 1'' ''Chapter 1''
            = Returns (Some (''downloads/Chapter 1'' @ ''.cbz''))"
    by (rule converters_absent_iff
          [of sample_host ?ds "''downloads/Chapter 1''" "''Chapter 1''",
           THEN conjunct2, THEN conjunct2, THEN conjunct2, THEN conjunct2, THEN conjunct2,
           THEN conjunct2, THEN conjunct2, THEN conjunct2, THEN conjunct2, THEN conjunct2,
           THEN conjunct2, THEN conjunct2, THEN conjunct2, THEN conjunct2, rule_format,
           of "[''002.webp'', ''001.gif'']"])
      (intro conjI, rule d, rule p, rule c, rule z)
  then have first: "create_pdf sample_host ?ds ''downloads/Chapter 1'' ''Chapter 1'' = Returns None"
    and second: "create_cbz sample_host ?ds ''downloads/Chapter 1'' ''Chapter 1''
                   = Returns (Some ''downloads/Chapter 1.cbz'')"
    by simp_all
  note inst = converters_absent_iff [of sample_host ?ds' "''downloads/Chapter 1''" "''Chapter 1''"]
  have l: "os_listdir ?ds' ''downloads/Chapter 1'' = Returns [''002.webp'', ''001.JPG'']"
    by (simp add: os_listdir_def)
  have e: "listed_images pdf_suffixes ''downloads/Chapter 1'' [''002.webp'', ''001.JPG'']
             = [''downloads/Chapter 1/001.JPG'']"
    by (simp add: listed_images_def pdf_suffixes_def endswith_def lower_def lower_char_def
        path_join_def)
  have o: "open_output sample_host path = Returns ()"
    "img2pdf_convert sample_host files = Returns [37, 80, 68, 70]"
    "write_output sample_host path data = Returns ()" for path files data
    by (simp_all add: sample_host_def)
  have "create_pdf sample_host ?ds' ''downloads/Chapter 1'' ''Chapter 1'' \<noteq> Returns None"
    unfolding inst [THEN conjunct2, THEN conjunct2, THEN conjunct2, THEN conjunct2, THEN conjunct2,
        THEN conjunct1] l
    by (simp add: e o)
  moreover from inst [THEN conjunct2, THEN conjunct1] obtain path
    where "create_pdf sample_host ?ds' ''downloads/Chapter 1'' ''Chapter 1'' = Returns path"
    ..
  ultimately obtain out
    where out: "create_pdf sample_host ?ds' ''downloads/Chapter 1'' ''Chapter 1''
                  = Returns (Some out)"
    by (cases path) auto
  with inst [THEN conjunct2, THEN conjunct2, THEN conjunct2, THEN conjunct1, rule_format, OF out]
  have third: "create_pdf sample_host ?ds' ''downloads/Chapter 1'' ''Chapter 1''
                 = Returns (Some ''downloads/Chapter 1.pdf'')"
    by simp
  from first second third show ?thesis by (intro conjI)
qed


section \<open>The job, round by round\<close>

lemma events_emit [simp]: "events (emit e s) = events s @ [e]"
  by (simp add: emit_def)

lemma dirs_emit [simp]: "dirs (emit e s) = dirs s"
  by (simp add: emit_def)

lemma progress_values_append [simp]:
  "progress_values (es @ es') = progress_values es @ progress_values es'"
  by (simp add: progress_values_def)

lemma progress_values_Nil [simp]: "progress_values [] = []"
  by (simp add: progress_values_def)

lemma progress_values_single:
  "progress_values [e] = (case e of Progress n \<Rightarrow> [n] | _ \<Rightarrow> [])"
  by (simp add: progress_values_def)

lemma converter_returns: "\<exists>output. converter l h ds chapter_dir chapter_title = Returns output"
  by (cases l) (simp_all add: converter_def create_cbz_returns create_pdf_returns)

lemma convert_chapters_fold:
  "convert_chapters h delete_sources n_conversions phase l total_count tasks s
     = (Returns (), fold (convert_step h delete_sources n_conversions phase l total_count) tasks s)"
proof (induction tasks arbitrary: s)
  case Nil
  show ?case by simp
next
  case (Cons task tasks)
  obtain idx chapter_dir chapter_title where task: "task = (idx, chapter_dir, chapter_title)"
    by (cases task)
  obtain res where out: "converter l h (dirs s) chapter_dir chapter_title = Returns res"
    using converter_returns by blast
  have step: "convert_chapters h delete_sources n_conversions phase l total_count (task # tasks) s
                = convert_chapters h delete_sources n_conversions phase l total_count tasks
                    (convert_step h delete_sources n_conversions phase l total_count task s)"
    unfolding task
    by (simp add: convert_step_def phase_progress_def out Let_def)
  show ?case
    unfolding step Cons.IH by simp
qed

text \<open>What one call of \<open>cleanup\<close> and one round add to the log and do to the directories.\<close>

lemma cleanup_cases:
  "cleanup h delete_sources chapter_dir chapter_title s = s
   \<or> (\<exists>ds. dirs s chapter_dir \<noteq> None \<and> delete_sources \<and> ds chapter_dir = None
            \<and> dom ds \<subseteq> dom (dirs s)
            \<and> cleanup h delete_sources chapter_dir chapter_title s
                = emit (Log_removed chapter_dir chapter_title) (s\<lparr>dirs := ds\<rparr>))
   \<or> (\<exists>ds. dirs s chapter_dir \<noteq> None \<and> dom ds \<subseteq> dom (dirs s)
            \<and> cleanup h delete_sources chapter_dir chapter_title s
                = emit (Log_cleanup_failed chapter_dir chapter_title) (s\<lparr>dirs := ds\<rparr>))"
proof (cases "delete_sources \<and> os_path_isdir (dirs s) chapter_dir")
  case False
  then have "cleanup h delete_sources chapter_dir chapter_title s = s"
    by (simp only: cleanup_def if_False)
  then show ?thesis by (rule disjI1)
next
  case True
  then obtain names where names: "dirs s chapter_dir = Some names"
    by (auto simp: os_path_isdir_def)
  show ?thesis
  proof (cases "rmtree h chapter_dir names")
    case None
    with True names have "cleanup h delete_sources chapter_dir chapter_title s
            = emit (Log_removed chapter_dir chapter_title) (s\<lparr>dirs := (dirs s)(chapter_dir := None)\<rparr>)"
      by (simp add: cleanup_def shutil_rmtree_def)
    moreover have "dom ((dirs s)(chapter_dir := None)) \<subseteq> dom (dirs s)" by auto
    ultimately show ?thesis using True names by (intro disjI2 disjI1 exI conjI) simp_all
  next
    case (Some left)
    with True names have "cleanup h delete_sources chapter_dir chapter_title s
            = emit (Log_cleanup_failed chapter_dir chapter_title)
                (s\<lparr>dirs := (dirs s)(chapter_dir \<mapsto> left)\<rparr>)"
      by (simp add: cleanup_def shutil_rmtree_def)
    moreover have "dom ((dirs s)(chapter_dir \<mapsto> left)) \<subseteq> dom (dirs s)" using names by auto
    ultimately show ?thesis using names by (intro disjI2 exI conjI) simp_all
  qed
qed

lemma converter_some:
  assumes "converter l h ds chapter_dir chapter_title = Returns (Some path)"
  shows "ds chapter_dir \<noteq> None \<and> path = chapter_dir @ (case l of CBZ \<Rightarrow> ''.cbz'' | PDF \<Rightarrow> ''.pdf'')"
proof (cases "os_listdir ds chapter_dir")
  case (Raises e)
  with assms show ?thesis
    by (cases l) (simp_all add: converter_def create_cbz_missing create_pdf_missing)
next
  case (Returns names)
  then have here: "ds chapter_dir \<noteq> None"
    by (auto simp: os_listdir_def split: option.splits)
  show ?thesis
  proof (cases l)
    case CBZ
    with assms Returns here show ?thesis
      by (auto simp: converter_def create_cbz_listed split: if_splits outcome.splits)
  next
    case PDF
    with assms Returns here show ?thesis
      by (auto simp: converter_def create_pdf_listed split: if_splits outcome.splits)
  qed
qed

lemma convert_step_cases:
  obtains
    (skipped) "l = PDF" and "dirs s chapter_dir = None"
      and "events (convert_step h delete_sources n phase l total_count
                     (idx, chapter_dir, chapter_title) s)
             = events s @ [Log_skipping chapter_dir chapter_title]"
      and "dirs (convert_step h delete_sources n phase l total_count
                   (idx, chapter_dir, chapter_title) s) = dirs s"
  | (failed) "l = PDF \<longrightarrow> dirs s chapter_dir \<noteq> None"
      and "events (convert_step h delete_sources n phase l total_count
                     (idx, chapter_dir, chapter_title) s)
             = events s @ [Log_failed l chapter_title,
                           Progress (phase_progress h n phase total_count idx)]"
      and "dirs (convert_step h delete_sources n phase l total_count
                   (idx, chapter_dir, chapter_title) s) = dirs s"
  | (ready) "dirs s chapter_dir \<noteq> None"
      and "events (convert_step h delete_sources n phase l total_count
                     (idx, chapter_dir, chapter_title) s)
             = events s @ [Log_ready l (chapter_dir @ archive_suffix l),
                           Progress (phase_progress h n phase total_count idx)]"
      and "dirs (convert_step h delete_sources n phase l total_count
                   (idx, chapter_dir, chapter_title) s) = dirs s"
  | (removed) "dirs s chapter_dir \<noteq> None" and "delete_sources"
      and "events (convert_step h delete_sources n phase l total_count
                     (idx, chapter_dir, chapter_title) s)
             = events s @ [Log_ready l (chapter_dir @ archive_suffix l),
                           Log_removed chapter_dir chapter_title,
                           Progress (phase_progress h n phase total_count idx)]"
      and "dirs (convert_step h delete_sources n phase l total_count
                   (idx, chapter_dir, chapter_title) s) chapter_dir = None"
      and "dom (dirs (convert_step h delete_sources n phase l total_count
                        (idx, chapter_dir, chapter_title) s)) \<subseteq> dom (dirs s)"
  | (kept) "dirs s chapter_dir \<noteq> None"
      and "events (convert_step h delete_sources n phase l total_count
                     (idx, chapter_dir, chapter_title) s)
             = events s @ [Log_ready l (chapter_dir @ archive_suffix l),
                           Log_cleanup_failed chapter_dir chapter_title,
                           Progress (phase_progress h n phase total_count idx)]"
      and "dom (dirs (convert_step h delete_sources n phase l total_count
                        (idx, chapter_dir, chapter_title) s)) \<subseteq> dom (dirs s)"
proof (cases "l = PDF \<and> \<not> os_path_exists (dirs s) chapter_dir")
  case True
  then have "l = PDF" "dirs s chapter_dir = None"
    by (simp_all add: os_path_exists_def)
  moreover from True
  have "convert_step h delete_sources n phase l total_count (idx, chapter_dir, chapter_title) s
          = emit (Log_skipping chapter_dir chapter_title) s"
    by (simp add: convert_step_def)
  ultimately show ?thesis by (intro skipped) simp_all
next
  case False
  then have cond: "(l = PDF \<and> \<not> os_path_exists (dirs s) chapter_dir) = False"
    by simp
  from False have here: "l = PDF \<longrightarrow> dirs s chapter_dir \<noteq> None"
    by (simp add: os_path_exists_def)
  obtain res where res: "converter l h (dirs s) chapter_dir chapter_title = Returns res"
    using converter_returns by blast
  show ?thesis
  proof (cases res)
    case None
    have "convert_step h delete_sources n phase l total_count (idx, chapter_dir, chapter_title) s
            = emit (Progress (phase_progress h n phase total_count idx))
                (emit (Log_failed l chapter_title) s)"
      by (simp only: convert_step_def prod.case cond if_False res None outcome.case option.case)
    with here show ?thesis by (intro failed) simp_all
  next
    case (Some path)
    with res have p: "dirs s chapter_dir \<noteq> None" "path = chapter_dir @ archive_suffix l"
      using converter_some [of l h "dirs s" chapter_dir chapter_title path]
      by (simp_all add: archive_suffix_def)
    let ?s = "emit (Log_ready l (chapter_dir @ archive_suffix l)) s"
    have step: "convert_step h delete_sources n phase l total_count
                  (idx, chapter_dir, chapter_title) s
                = emit (Progress (phase_progress h n phase total_count idx))
                    (cleanup h delete_sources chapter_dir chapter_title ?s)"
      by (simp only: convert_step_def prod.case cond if_False res Some p(2) outcome.case
          option.case)
    from cleanup_cases [of h delete_sources chapter_dir chapter_title ?s]
    consider "cleanup h delete_sources chapter_dir chapter_title ?s = ?s"
      | ds where "delete_sources" "ds chapter_dir = None" "dom ds \<subseteq> dom (dirs s)"
          "cleanup h delete_sources chapter_dir chapter_title ?s
             = emit (Log_removed chapter_dir chapter_title) (?s\<lparr>dirs := ds\<rparr>)"
      | ds where "dom ds \<subseteq> dom (dirs s)"
          "cleanup h delete_sources chapter_dir chapter_title ?s
             = emit (Log_cleanup_failed chapter_dir chapter_title) (?s\<lparr>dirs := ds\<rparr>)"
      by auto
    then show ?thesis
    proof cases
      case 1
      with step p(1) show ?thesis by (intro ready) simp_all
    next
      case 2
      with step p(1) show ?thesis by (intro removed) simp_all
    next
      case 3
      with step p(1) show ?thesis by (intro kept) simp_all
    qed
  qed
qed

lemma logged_eq: "events s' = events s @ es \<Longrightarrow> logged s s' = es"
  by (simp add: logged_def)

lemma logged_trans:
  assumes "events s' = events s @ logged s s'" and "events s'' = events s' @ logged s' s''"
  shows "logged s s'' = logged s s' @ logged s' s''"
    and "events s'' = events s @ logged s s''"
proof -
  from assms have "events s'' = events s @ logged s s' @ logged s' s''" by simp
  then show "logged s s'' = logged s s' @ logged s' s''" by (rule logged_eq)
  with assms show "events s'' = events s @ logged s s''" by simp
qed

lemma convert_step_prefix:
  "events (convert_step h delete_sources n phase l total_count task s)
     = events s @ logged s (convert_step h delete_sources n phase l total_count task s)"
  "dom (dirs (convert_step h delete_sources n phase l total_count task s)) \<subseteq> dom (dirs s)"
proof -
  obtain idx chapter_dir chapter_title where task: "task = (idx, chapter_dir, chapter_title)"
    by (cases task)
  show "events (convert_step h delete_sources n phase l total_count task s)
          = events s @ logged s (convert_step h delete_sources n phase l total_count task s)"
    unfolding task
    by (cases rule: convert_step_cases
          [of l s chapter_dir h delete_sources n phase total_count idx chapter_title])
      (simp_all add: logged_def)
  show "dom (dirs (convert_step h delete_sources n phase l total_count task s)) \<subseteq> dom (dirs s)"
    unfolding task
    by (cases rule: convert_step_cases
          [of l s chapter_dir h delete_sources n phase total_count idx chapter_title])
      simp_all
qed

lemma convert_fold_dirs:
  "dom (dirs (fold (convert_step h delete_sources n phase l total_count) tasks s)) \<subseteq> dom (dirs s)"
proof (induction tasks arbitrary: s)
  case Nil
  show ?case by simp
next
  case (Cons task tasks)
  let ?s = "convert_step h delete_sources n phase l total_count task s"
  have "dom (dirs (fold (convert_step h delete_sources n phase l total_count) tasks ?s))
          \<subseteq> dom (dirs ?s)"
    by (rule Cons.IH)
  also have "\<dots> \<subseteq> dom (dirs s)" by (rule convert_step_prefix(2))
  finally show ?case by simp
qed

lemma convert_fold_prefix:
  "events (fold (convert_step h delete_sources n phase l total_count) tasks s)
     = events s @ logged s (fold (convert_step h delete_sources n phase l total_count) tasks s)"
proof (induction tasks arbitrary: s)
  case Nil
  show ?case by (simp add: logged_def)
next
  case (Cons task tasks)
  let ?s = "convert_step h delete_sources n phase l total_count task s"
  show ?case
    using logged_trans(2) [OF convert_step_prefix(1) Cons.IH [of ?s]] by simp
qed

lemma convert_fold_Cons:
  "logged s (fold (convert_step h delete_sources n phase l total_count) tasks
               (convert_step h delete_sources n phase l total_count task s))
     = logged s (convert_step h delete_sources n phase l total_count task s)
       @ logged (convert_step h delete_sources n phase l total_count task s)
           (fold (convert_step h delete_sources n phase l total_count) tasks
              (convert_step h delete_sources n phase l total_count task s))"
  using logged_trans(1) [OF convert_step_prefix(1) convert_fold_prefix] .

lemma convert_step_logged:
  obtains
    (skipped) "l = PDF" and "dirs s chapter_dir = None"
      and "logged s (convert_step h delete_sources n phase l total_count
                       (idx, chapter_dir, chapter_title) s)
             = [Log_skipping chapter_dir chapter_title]"
  | (failed) "l = PDF \<longrightarrow> dirs s chapter_dir \<noteq> None"
      and "logged s (convert_step h delete_sources n phase l total_count
                       (idx, chapter_dir, chapter_title) s)
             = [Log_failed l chapter_title, Progress (phase_progress h n phase total_count idx)]"
  | (ready) "dirs s chapter_dir \<noteq> None"
      and "logged s (convert_step h delete_sources n phase l total_count
                       (idx, chapter_dir, chapter_title) s)
             = [Log_ready l (chapter_dir @ archive_suffix l),
                Progress (phase_progress h n phase total_count idx)]"
  | (removed) "dirs s chapter_dir \<noteq> None" and "delete_sources"
      and "logged s (convert_step h delete_sources n phase l total_count
                       (idx, chapter_dir, chapter_title) s)
             = [Log_ready l (chapter_dir @ archive_suffix l),
                Log_removed chapter_dir chapter_title,
                Progress (phase_progress h n phase total_count idx)]"
      and "dirs (convert_step h delete_sources n phase l total_count
                   (idx, chapter_dir, chapter_title) s) chapter_dir = None"
  | (kept) "dirs s chapter_dir \<noteq> None"
      and "logged s (convert_step h delete_sources n phase l total_count
                       (idx, chapter_dir, chapter_title) s)
             = [Log_ready l (chapter_dir @ archive_suffix l),
                Log_cleanup_failed chapter_dir chapter_title,
                Progress (phase_progress h n phase total_count idx)]"
proof (cases rule: convert_step_cases
                     [of l s chapter_dir h delete_sources n phase total_count idx chapter_title])
  case skipped
  then show ?thesis by (intro that(1) logged_eq)
next
  case failed
  then show ?thesis by (intro that(2) logged_eq)
next
  case ready
  then show ?thesis by (intro that(3) logged_eq)
next
  case removed
  then show ?thesis by (intro that(4) logged_eq)
next
  case kept
  then show ?thesis by (intro that(5) logged_eq)
qed

section \<open>One conversion phase\<close>

lemma phase_progress_mono:
  assumes "monotone_scale (int_scale h)" and "i \<le> j"
  shows "phase_progress h n phase total_count i \<le> phase_progress h n phase total_count j"
proof -
  from assms have "int_scale h i (max 1 total_count) (35 div max 1 n)
                     \<le> int_scale h j (max 1 total_count) (35 div max 1 n)"
    by (simp add: monotone_scale_def)
  then show ?thesis unfolding phase_progress_def by linarith
qed

lemma phase_progress_bounds:
  assumes "monotone_scale (int_scale h)" and "idx \<le> max 1 total_count"
    and "1 \<le> phase" and "phase \<le> max 1 n"
  shows "60 + (phase - 1) * (35 div max 1 n) \<le> phase_progress h n phase total_count idx"
    and "phase_progress h n phase total_count idx \<le> 60 + phase * (35 div max 1 n)"
    and "phase_progress h n phase total_count idx \<le> 95"
proof -
  let ?span = "35 div max 1 n"
  from assms(1,2) have top: "int_scale h idx (max 1 total_count) ?span \<le> ?span"
    by (simp add: monotone_scale_def)
  have "phase * ?span \<le> max 1 n * ?span" using assms(4) by (rule mult_le_mono1)
  also have "\<dots> \<le> 35" by (simp add: mult.commute)
  finally have all: "phase * ?span \<le> 35" .
  have split: "phase * ?span = (phase - 1) * ?span + ?span"
    using assms(3) by (cases phase) simp_all
  show "60 + (phase - 1) * ?span \<le> phase_progress h n phase total_count idx"
    using all split unfolding phase_progress_def by linarith
  show "phase_progress h n phase total_count idx \<le> 60 + phase * ?span"
    using top split unfolding phase_progress_def by linarith
  show "phase_progress h n phase total_count idx \<le> 95"
    unfolding phase_progress_def by linarith
qed

lemma convert_fold_progress:
  assumes "monotone_scale (int_scale h)" and "sorted (map fst tasks)"
  shows "sorted (progress_values
                   (logged s (fold (convert_step h delete_sources n phase l total_count) tasks s)))
         \<and> set (progress_values
                   (logged s (fold (convert_step h delete_sources n phase l total_count) tasks s)))
             \<subseteq> phase_progress h n phase total_count ` fst ` set tasks"
  using assms(2)
proof (induction tasks arbitrary: s)
  case Nil
  show ?case by (simp add: logged_def)
next
  case (Cons task tasks)
  obtain idx chapter_dir chapter_title where task: "task = (idx, chapter_dir, chapter_title)"
    by (cases task)
  let ?f = "convert_step h delete_sources n phase l total_count"
  let ?g = "phase_progress h n phase total_count"
  let ?X = "progress_values (logged s (?f task s))"
  let ?L = "progress_values (logged (?f task s) (fold ?f tasks (?f task s)))"
  have X: "?X = [] \<or> ?X = [?g idx]"
    unfolding task
    by (cases rule: convert_step_logged
          [of l s chapter_dir h delete_sources n phase total_count idx chapter_title])
      (simp_all add: progress_values_def)
  from Cons.prems have later: "\<forall>j \<in> fst ` set tasks. idx \<le> j" and rest: "sorted (map fst tasks)"
    by (auto simp: task)
  from Cons.IH [OF rest, of "?f task s"]
  have L: "sorted ?L" "set ?L \<subseteq> ?g ` fst ` set tasks" by simp_all
  have "\<forall>y \<in> set ?L. ?g idx \<le> y"
  proof
    fix y assume "y \<in> set ?L"
    with L(2) obtain j where "j \<in> fst ` set tasks" "y = ?g j" by blast
    with later show "?g idx \<le> y"
      using phase_progress_mono [OF assms(1)] by auto
  qed
  with X L have "sorted (?X @ ?L)" "set (?X @ ?L) \<subseteq> ?g ` fst ` set (task # tasks)"
    by (auto simp: task sorted_append)
  then show ?case
    by (simp only: fold_simps convert_fold_Cons progress_values_append)
qed

lemma convert_fold_removed:
  assumes "Log_removed d t
             \<in> set (logged s (fold (convert_step h delete_sources n phase l total_count) tasks s))"
  shows "dirs (fold (convert_step h delete_sources n phase l total_count) tasks s) d = None
         \<and> (\<exists>before after.
               logged s (fold (convert_step h delete_sources n phase l total_count) tasks s)
                 = before @ Log_ready l (d @ archive_suffix l) # Log_removed d t # after)"
  using assms
proof (induction tasks arbitrary: s)
  case Nil
  then show ?case by (simp add: logged_def)
next
  case (Cons task tasks)
  obtain idx chapter_dir chapter_title where task: "task = (idx, chapter_dir, chapter_title)"
    by (cases task)
  let ?f = "convert_step h delete_sources n phase l total_count"
  let ?X = "logged s (?f task s)"
  let ?L = "logged (?f task s) (fold ?f tasks (?f task s))"
  from Cons.prems have "Log_removed d t \<in> set ?X \<or> Log_removed d t \<in> set ?L"
    by (simp add: convert_fold_Cons)
  then show ?case
  proof
    assume "Log_removed d t \<in> set ?L"
    from Cons.IH [OF this] obtain before after
      where "dirs (fold ?f tasks (?f task s)) d = None"
        and "?L = before @ Log_ready l (d @ archive_suffix l) # Log_removed d t # after"
      by blast
    then have "dirs (fold ?f (task # tasks) s) d = None"
      and "logged s (fold ?f (task # tasks) s)
             = (?X @ before) @ Log_ready l (d @ archive_suffix l) # Log_removed d t # after"
      by (simp_all add: convert_fold_Cons)
    then show ?thesis by blast
  next
    assume here: "Log_removed d t \<in> set ?X"
    have "d = chapter_dir \<and> t = chapter_title \<and> dirs (?f task s) d = None
          \<and> ?X = [Log_ready l (d @ archive_suffix l), Log_removed d t,
                    Progress (phase_progress h n phase total_count idx)]"
      using here unfolding task
      by (cases rule: convert_step_logged
            [of l s chapter_dir h delete_sources n phase total_count idx chapter_title])
        simp_all
    then have gone: "dirs (?f task s) d = None"
      and X: "?X = [] @ Log_ready l (d @ archive_suffix l) # Log_removed d t
                     # [Progress (phase_progress h n phase total_count idx)]"
      by auto
    have "dom (dirs (fold ?f tasks (?f task s))) \<subseteq> dom (dirs (?f task s))"
      by (rule convert_fold_dirs)
    with gone have "dirs (fold ?f (task # tasks) s) d = None"
      by (auto simp: domIff)
    moreover have "logged s (fold ?f (task # tasks) s)
                     = [] @ Log_ready l (d @ archive_suffix l) # Log_removed d t
                         # ([Progress (phase_progress h n phase total_count idx)] @ ?L)"
      using X by (simp add: convert_fold_Cons)
    ultimately show ?thesis by blast
  qed
qed

lemma convert_fold_ready:
  assumes "Log_ready l' path
             \<in> set (logged s (fold (convert_step h delete_sources n phase l total_count) tasks s))"
  shows "l' = l \<and> (\<exists>d. path = d @ archive_suffix l \<and> dirs s d \<noteq> None)"
  using assms
proof (induction tasks arbitrary: s)
  case Nil
  then show ?case by (simp add: logged_def)
next
  case (Cons task tasks)
  obtain idx chapter_dir chapter_title where task: "task = (idx, chapter_dir, chapter_title)"
    by (cases task)
  let ?f = "convert_step h delete_sources n phase l total_count"
  let ?X = "logged s (?f task s)"
  let ?L = "logged (?f task s) (fold ?f tasks (?f task s))"
  from Cons.prems have "Log_ready l' path \<in> set ?X \<or> Log_ready l' path \<in> set ?L"
    by (simp add: convert_fold_Cons)
  then show ?case
  proof
    assume "Log_ready l' path \<in> set ?L"
    from Cons.IH [OF this] obtain d where "l' = l" "path = d @ archive_suffix l"
      "dirs (?f task s) d \<noteq> None"
      by blast
    moreover have "dom (dirs (?f task s)) \<subseteq> dom (dirs s)" by (rule convert_step_prefix(2))
    ultimately show ?thesis by (auto simp: domIff)
  next
    assume "Log_ready l' path \<in> set ?X"
    then have "l' = l \<and> path = chapter_dir @ archive_suffix l \<and> dirs s chapter_dir \<noteq> None"
      unfolding task
      by (cases rule: convert_step_logged
            [of l s chapter_dir h delete_sources n phase total_count idx chapter_title])
        simp_all
    then show ?thesis by blast
  qed
qed

lemma convert_fold_skipping:
  assumes "(idx, d, t) \<in> set tasks" and "dirs s d = None"
  shows "Log_skipping d t
           \<in> set (logged s (fold (convert_step h delete_sources n phase PDF total_count) tasks s))"
  using assms
proof (induction tasks arbitrary: s)
  case Nil
  then show ?case by simp
next
  case (Cons task tasks)
  let ?f = "convert_step h delete_sources n phase PDF total_count"
  show ?case
  proof (cases "task = (idx, d, t)")
    case True
    have "Log_skipping d t \<in> set (logged s (?f task s))"
      using Cons.prems(2) unfolding True
      by (cases rule: convert_step_logged
            [of PDF s d h delete_sources n phase total_count idx t])
        simp_all
    then show ?thesis by (simp add: convert_fold_Cons)
  next
    case False
    with Cons.prems(1) have "(idx, d, t) \<in> set tasks" by simp
    moreover have "dom (dirs (?f task s)) \<subseteq> dom (dirs s)" by (rule convert_step_prefix(2))
    with Cons.prems(2) have "dirs (?f task s) d = None" by (auto simp: domIff)
    ultimately have "Log_skipping d t \<in> set (logged (?f task s) (fold ?f tasks (?f task s)))"
      by (rule Cons.IH)
    then show ?thesis by (simp add: convert_fold_Cons)
  qed
qed

section \<open>The conversion phases and the download stage\<close>

lemma progress_values_Cons:
  "progress_values (e # es) = (case e of Progress v \<Rightarrow> [v] | _ \<Rightarrow> []) @ progress_values es"
  by (simp add: progress_values_def)

lemma enumerate_one_sorted: "sorted (map fst (enumerate 1 xs))"
  by (rule sorted_enumerate)

lemma enumerate_one_bound:
  "idx \<in> fst ` set (enumerate 1 xs) \<Longrightarrow> idx \<le> max 1 (length xs)"
  by (auto simp: in_set_enumerate_eq)

lemma sorted_concat_groups:
  assumes "\<forall>p < length groups. sorted (groups ! p)
             \<and> (\<forall>x \<in> set (groups ! p). lo + (m + p - 1) * width \<le> x \<and> x \<le> lo + (m + p) * width)"
    and "1 \<le> m"
  shows "sorted (concat groups) \<and> (\<forall>x \<in> set (concat groups). lo + (m - 1) * width \<le> x)"
  using assms
proof (induction groups arbitrary: m)
  case Nil
  show ?case by simp
next
  case (Cons g groups)
  have first: "sorted g" "\<forall>x \<in> set g. lo + (m - 1) * width \<le> x \<and> x \<le> lo + m * width"
    using Cons.prems(1) [rule_format, of 0] by simp_all
  have "\<forall>p < length groups. sorted (groups ! p)
          \<and> (\<forall>x \<in> set (groups ! p). lo + (Suc m + p - 1) * width \<le> x
                                      \<and> x \<le> lo + (Suc m + p) * width)"
  proof (intro allI impI)
    fix p assume "p < length groups"
    then show "sorted (groups ! p)
                 \<and> (\<forall>x \<in> set (groups ! p). lo + (Suc m + p - 1) * width \<le> x
                                             \<and> x \<le> lo + (Suc m + p) * width)"
      using Cons.prems(1) [rule_format, of "Suc p"] by simp
  qed
  from Cons.IH [OF this] have rest: "sorted (concat groups)"
    "\<forall>x \<in> set (concat groups). lo + m * width \<le> x"
    by simp_all
  have "(m - 1) * width \<le> m * width" by (rule mult_le_mono1) simp
  with first rest have "\<forall>x \<in> set g. \<forall>y \<in> set (concat groups). x \<le> y"
    by (meson le_trans)
  moreover have "\<forall>x \<in> set (g @ concat groups). lo + (m - 1) * width \<le> x"
  proof
    fix x assume "x \<in> set (g @ concat groups)"
    then consider "x \<in> set g" | "x \<in> set (concat groups)" by auto
    then show "lo + (m - 1) * width \<le> x"
    proof cases
      case 1
      with first(2) show ?thesis by blast
    next
      case 2
      with rest(2) have "lo + m * width \<le> x" by blast
      with \<open>(m - 1) * width \<le> m * width\<close> show ?thesis by linarith
    qed
  qed
  ultimately show ?case
    using first(1) rest(1) by (simp only: concat.simps sorted_append)
qed

lemma convert_phases_progress:
  assumes "monotone_scale (int_scale h)" and "1 \<le> m" and "m + length ls \<le> Suc (max 1 n)"
  shows "\<exists>s' groups.
           convert_phases h delete_sources n (enumerate m ls) successful s = (Returns (), s')
         \<and> events s' = events s @ logged s s'
         \<and> progress_values (logged s s') = concat groups
         \<and> length groups = length ls
         \<and> (\<forall>p < length groups. sorted (groups ! p)
               \<and> (\<forall>x \<in> set (groups ! p).
                      60 + (m + p - 1) * (35 div max 1 n) \<le> x
                    \<and> x \<le> 60 + (m + p) * (35 div max 1 n)
                    \<and> x \<le> 95))"
  using assms(2,3)
proof (induction ls arbitrary: m s)
  case Nil
  show ?case by (simp add: logged_def)
next
  case (Cons l ls)
  let ?f = "convert_step h delete_sources n m l (length successful)"
  let ?s0 = "emit (Log_running l) s"
  let ?s1 = "fold ?f (enumerate 1 successful) ?s0"
  let ?g = "progress_values (logged ?s0 ?s1)"
  have phase: "convert_chapters h delete_sources n m l (length successful) (enumerate 1 successful) ?s0
                 = (Returns (), ?s1)"
    by (rule convert_chapters_fold)
  have pre1: "events ?s1 = events ?s0 @ logged ?s0 ?s1"
    by (rule convert_fold_prefix)
  have prog: "sorted ?g"
    "set ?g \<subseteq> phase_progress h n m (length successful) ` fst ` set (enumerate 1 successful)"
    using convert_fold_progress
            [OF assms(1) enumerate_one_sorted, where s = ?s0 and xs1 = successful
               and delete_sources = delete_sources and n = n and phase = m and l = l
               and total_count = "length successful"]
    by simp_all
  have m: "1 \<le> m" "m \<le> max 1 n" using Cons.prems by simp_all
  have bounds: "\<forall>x \<in> set ?g. 60 + (m - 1) * (35 div max 1 n) \<le> x
                              \<and> x \<le> 60 + m * (35 div max 1 n) \<and> x \<le> 95"
  proof
    fix x assume "x \<in> set ?g"
    with prog(2) obtain idx where idx: "idx \<in> fst ` set (enumerate 1 successful)"
      and x: "x = phase_progress h n m (length successful) idx"
      by blast
    from idx have "idx \<le> max 1 (length successful)" by (rule enumerate_one_bound)
    from phase_progress_bounds [OF assms(1) this m]
    show "60 + (m - 1) * (35 div max 1 n) \<le> x \<and> x \<le> 60 + m * (35 div max 1 n) \<and> x \<le> 95"
      unfolding x by blast
  qed
  from Cons.prems have "1 \<le> Suc m" "Suc m + length ls \<le> Suc (max 1 n)" by simp_all
  from Cons.IH [OF this, of ?s1] obtain s' groups
    where rest: "convert_phases h delete_sources n (enumerate (Suc m) ls) successful ?s1
                   = (Returns (), s')"
      and pre2: "events s' = events ?s1 @ logged ?s1 s'"
      and vs: "progress_values (logged ?s1 s') = concat groups"
      and len: "length groups = length ls"
      and each: "\<forall>p < length groups. sorted (groups ! p)
                   \<and> (\<forall>x \<in> set (groups ! p).
                          60 + (Suc m + p - 1) * (35 div max 1 n) \<le> x
                        \<and> x \<le> 60 + (Suc m + p) * (35 div max 1 n)
                        \<and> x \<le> 95)"
    by blast
  have run: "convert_phases h delete_sources n (enumerate m (l # ls)) successful s = (Returns (), s')"
    by (simp only: enumerate_simps convert_phases.simps phase rest prod.case outcome.case)
  have ev: "events s' = events s @ [Log_running l] @ logged ?s0 ?s1 @ logged ?s1 s'"
    using pre1 pre2 by simp
  then have lg: "logged s s' = [Log_running l] @ logged ?s0 ?s1 @ logged ?s1 s'"
    by (rule logged_eq)
  have vals: "progress_values (logged s s') = concat (?g # groups)"
    by (simp only: lg progress_values_append progress_values_Cons progress_values_Nil
        event.case vs concat.simps append_Nil)
  have all: "\<forall>p < length (?g # groups). sorted ((?g # groups) ! p)
               \<and> (\<forall>x \<in> set ((?g # groups) ! p).
                      60 + (m + p - 1) * (35 div max 1 n) \<le> x
                    \<and> x \<le> 60 + (m + p) * (35 div max 1 n)
                    \<and> x \<le> 95)"
  proof (intro allI impI)
    fix p assume p: "p < length (?g # groups)"
    show "sorted ((?g # groups) ! p)
            \<and> (\<forall>x \<in> set ((?g # groups) ! p).
                   60 + (m + p - 1) * (35 div max 1 n) \<le> x
                 \<and> x \<le> 60 + (m + p) * (35 div max 1 n)
                 \<and> x \<le> 95)"
    proof (cases p)
      case 0
      with prog(1) bounds show ?thesis by simp
    next
      case (Suc q)
      with p each [rule_format, of q] show ?thesis by simp
    qed
  qed
  from run ev lg vals len all show ?case
    by (intro exI [of _ s'] exI [of _ "?g # groups"] conjI) simp_all
qed

lemma download_sequential_log:
  "\<exists>es k. events (snd (download_sequential h total_count tasks successful s)) = events s @ es
       \<and> k \<le> length tasks
       \<and> progress_values es = map (\<lambda>task. int_scale h (fst task) total_count 60) (take k tasks)
       \<and> (\<forall>e \<in> set es. (\<exists>a b c. e = Log_chapter a b c) \<or> (\<exists>v. e = Progress v))"
proof (induction tasks arbitrary: successful s)
  case Nil
  show ?case by simp
next
  case (Cons task tasks)
  obtain idx c where task: "task = (idx, c)" by (cases task)
  let ?s1 = "emit (Log_chapter idx total_count (title c)) s"
  obtain res ds where dl: "download_chapter h (url c) (title c) 1 (dirs ?s1) = (res, ds)"
    by (cases "download_chapter h (url c) (title c) 1 (dirs ?s1)")
  show ?case
  proof (cases res)
    case (Raises e)
    let ?es = "[Log_chapter idx total_count (title c)]"
    have "events (snd (download_sequential h total_count (task # tasks) successful s))
            = events s @ ?es"
      using dl Raises by (simp add: task Let_def)
    moreover have "(0::nat) \<le> length (task # tasks)" by simp
    moreover have "progress_values ?es
                     = map (\<lambda>task. int_scale h (fst task) total_count 60) (take 0 (task # tasks))"
      by (simp add: progress_values_def)
    moreover have "\<forall>e \<in> set ?es. (\<exists>a b c. e = Log_chapter a b c) \<or> (\<exists>v. e = Progress v)"
      by simp
    ultimately show ?thesis by blast
  next
    case (Returns pair)
    obtain chapter_dir ok where pair: "pair = (chapter_dir, ok)" by (cases pair)
    let ?succ = "if ok then successful @ [(chapter_dir, title c)] else successful"
    let ?s2 = "emit (Progress (int_scale h idx total_count 60)) (?s1\<lparr>dirs := ds\<rparr>)"
    have step: "download_sequential h total_count (task # tasks) successful s
                  = download_sequential h total_count tasks ?succ ?s2"
      using dl Returns pair by (simp add: task Let_def)
    from Cons.IH [of ?succ ?s2] obtain es k
      where es: "events (snd (download_sequential h total_count tasks ?succ ?s2)) = events ?s2 @ es"
        "k \<le> length tasks"
        "progress_values es = map (\<lambda>task. int_scale h (fst task) total_count 60) (take k tasks)"
        "\<forall>e \<in> set es. (\<exists>a b c. e = Log_chapter a b c) \<or> (\<exists>v. e = Progress v)"
      by blast
    let ?es = "[Log_chapter idx total_count (title c), Progress (int_scale h idx total_count 60)]
               @ es"
    have "events (snd (download_sequential h total_count (task # tasks) successful s))
            = events s @ ?es"
      unfolding step es(1) by simp
    moreover have "Suc k \<le> length (task # tasks)" using es(2) by simp
    moreover have "progress_values ?es
                     = map (\<lambda>task. int_scale h (fst task) total_count 60)
                         (take (Suc k) (task # tasks))"
      by (simp add: es(3) task progress_values_Cons)
    moreover have "\<forall>e \<in> set ?es. (\<exists>a b c. e = Log_chapter a b c) \<or> (\<exists>v. e = Progress v)"
      using es(4) by auto
    ultimately show ?thesis by blast
  qed
qed

lemma download_stage_log:
  assumes "monotone_scale (int_scale h)"
  shows "\<exists>es. events (snd (download_stage h chapters threaded concurrency s)) = events s @ es
       \<and> sorted (progress_values es)
       \<and> (\<forall>x \<in> set (progress_values es). x \<le> 60)
       \<and> (\<forall>e \<in> set es. (\<exists>a b c. e = Log_chapter a b c) \<or> (\<exists>v. e = Progress v))"
proof (cases threaded)
  case True
  then have "events (snd (download_stage h chapters threaded concurrency s)) = events s @ []"
    by (simp add: download_stage_def split: prod.split)
  then show ?thesis by (intro exI [of _ "[]"]) simp
next
  case False
  let ?n = "length chapters"
  let ?v = "\<lambda>task :: nat \<times> chapter_entry. int_scale h (fst task) ?n 60"
  from download_sequential_log [of h ?n "enumerate 1 chapters" "[]" s] obtain es k
    where es: "events (snd (download_sequential h ?n (enumerate 1 chapters) [] s)) = events s @ es"
      "progress_values es = map ?v (take k (enumerate 1 chapters))"
      "\<forall>e \<in> set es. (\<exists>a b c. e = Log_chapter a b c) \<or> (\<exists>v. e = Progress v)"
    by blast
  have "map (\<lambda>idx. int_scale h idx ?n 60) (map fst (enumerate 1 chapters))
          = map ?v (enumerate 1 chapters)"
    by (simp only: map_map comp_def)
  then have full: "map ?v (enumerate 1 chapters) = map (\<lambda>idx. int_scale h idx ?n 60) [1..<1 + ?n]"
    by (simp only: map_fst_enumerate)
  have vals: "progress_values es = take k (map (\<lambda>idx. int_scale h idx ?n 60) [1..<1 + ?n])"
    unfolding es(2) full [symmetric] by (simp only: take_map)
  have mono: "int_scale h i t k \<le> int_scale h j t k" if "i \<le> j" for i j t k
    using assms that unfolding monotone_scale_def by blast
  have bound: "int_scale h i t k \<le> k" if "i \<le> t" for i t k
    using assms that unfolding monotone_scale_def by blast
  have "sorted_wrt (\<lambda>i j. int_scale h i ?n 60 \<le> int_scale h j ?n 60) [1..<1 + ?n]"
  proof (rule sorted_wrt_mono_rel [of _ "(\<le>)"])
    show "sorted_wrt (\<le>) [1..<1 + ?n]" by (rule sorted_upt)
    show "int_scale h i ?n 60 \<le> int_scale h j ?n 60" if "i \<le> j" for i j
      using that by (rule mono)
  qed
  then have "sorted (map (\<lambda>idx. int_scale h idx ?n 60) [1..<1 + ?n])"
    by (simp only: sorted_map)
  then have srt: "sorted (progress_values es)"
    unfolding vals by (rule sorted_wrt_take)
  have all: "\<forall>x \<in> set (map (\<lambda>idx. int_scale h idx ?n 60) [1..<1 + ?n]). x \<le> 60"
  proof
    fix x assume "x \<in> set (map (\<lambda>idx. int_scale h idx ?n 60) [1..<1 + ?n])"
    then obtain idx where i: "idx \<in> set [1..<1 + ?n]" and x: "x = int_scale h idx ?n 60"
      unfolding set_map by blast
    from i have "idx < 1 + ?n" by (simp only: set_upt atLeastLessThan_iff)
    then have "idx \<le> ?n" by linarith
    then show "x \<le> 60" unfolding x by (rule bound)
  qed
  have low: "\<forall>x \<in> set (progress_values es). x \<le> 60"
  proof
    fix x assume "x \<in> set (progress_values es)"
    then have "x \<in> set (map (\<lambda>idx. int_scale h idx ?n 60) [1..<1 + ?n])"
      unfolding vals by (rule in_set_takeD)
    with all show "x \<le> 60" by blast
  qed
  from srt low es(1,3) False show ?thesis
    by (intro exI [of _ es]) (simp add: download_stage_def)
qed


section \<open>The progress values of a job\<close>

lemma exact_scale_monotone: "monotone_scale exact_scale"
proof -
  have "exact_scale i t k \<le> exact_scale j t k" if "i \<le> j" for i j t k
    using that by (simp add: exact_scale_def div_le_mono)
  moreover have "exact_scale i t k \<le> k" if "i \<le> t" for i t k
  proof (cases "t = 0")
    case True
    then show ?thesis by (simp add: exact_scale_def)
  next
    case False
    from that have "i * k \<le> t * k" by (rule mult_le_mono1)
    then have "(i * k) div t \<le> (t * k) div t" by (rule div_le_mono)
    with False show ?thesis by (simp add: exact_scale_def)
  qed
  ultimately show ?thesis unfolding monotone_scale_def by blast
qed

lemma concat_groups_bound:
  assumes "\<forall>p < length groups. \<forall>x \<in> set (groups ! p). P x" and "x \<in> set (concat groups)"
  shows "P x"
proof -
  from assms(2) obtain g where "g \<in> set groups" "x \<in> set g" by auto
  then obtain p where "p < length groups" "groups ! p = g" by (auto simp: in_set_conv_nth)
  with assms(1) \<open>x \<in> set g\<close> show ?thesis by blast
qed

text \<open>
  A job over a non-empty selection of chapters, with an empty log at its start, whose
  download stage returns. The job returns, whatever chapters and conversions failed, and
  the progress values it emits are, in this order: the values of the download stage, all
  at most 60; for each requested conversion phase \<open>p\<close>, counted from zero, a group of values
  between \<open>60 + p * span\<close> and \<open>60 + (p + 1) * span\<close> and at most 95, where \<open>span\<close> is 35
  divided by the number of requested conversions; and 100 at the end. The whole sequence
  never decreases. No phase runs when no chapter was downloaded.
\<close>

lemma progress_sequence_returns:
  assumes "chapters \<noteq> []" and "monotone_scale (int_scale h)" and "events s = []"
    and "os_makedirs h ''downloads'' = Returns ()"
    and stage: "download_stage h chapters threaded concurrency
                  (emit (Log_downloading (length chapters)) s) = (Returns successful, s1)"
  shows "\<exists>s' groups.
           run_download_job h chapters threaded concurrency convert_mode delete_sources s
             = (Returns successful, s')
         \<and> progress_values (events s') = progress_values (events s1) @ concat groups @ [100]
         \<and> sorted (progress_values (events s'))
         \<and> last (progress_values (events s')) = 100
         \<and> (\<forall>x \<in> set (progress_values (events s1)). x \<le> 60)
         \<and> length groups = (if successful = [] then 0 else length (conversions convert_mode))
         \<and> (\<forall>p < length groups. \<forall>x \<in> set (groups ! p).
                 60 + p * (35 div max 1 (length (conversions convert_mode))) \<le> x
               \<and> x \<le> 60 + (p + 1) * (35 div max 1 (length (conversions convert_mode)))
               \<and> x \<le> 95)"
proof -
  let ?s0 = "emit (Log_downloading (length chapters)) s"
  let ?ls = "conversions convert_mode"
  let ?w = "35 div max 1 (length ?ls)"
  from download_stage_log [OF assms(2), of chapters threaded concurrency ?s0] stage
  obtain es where es: "events s1 = events ?s0 @ es" "sorted (progress_values es)"
    "\<forall>x \<in> set (progress_values es). x \<le> 60"
    by auto
  have F: "progress_values (events s1) = progress_values es"
    by (simp add: es(1) assms(3) progress_values_Cons)
  have low: "\<forall>x \<in> set (progress_values (events s1)). x \<le> 60"
    unfolding F by (rule es(3))
  show ?thesis
  proof (cases "successful = []")
    case True
    let ?s' = "emit (Progress 100) (emit Log_none_finished s1)"
    have run: "run_download_job h chapters threaded concurrency convert_mode delete_sources s
                 = (Returns successful, ?s')"
      by (simp add: run_download_job_def assms(1,4) stage True)
    have vals: "progress_values (events ?s') = progress_values (events s1) @ concat [] @ [100]"
      by (simp add: progress_values_Cons)
    have "sorted (progress_values (events s1) @ [100])"
      using es(2,3) unfolding F by (fastforce simp: sorted_append)
    then have srt: "sorted (progress_values (events ?s'))" unfolding vals F by simp
    have lst: "last (progress_values (events ?s')) = 100" unfolding vals by simp
    have len: "length ([] :: nat list list)
                 = (if successful = [] then 0 else length (conversions convert_mode))"
      using True by simp
    have none: "\<forall>p < length ([] :: nat list list). \<forall>x \<in> set ([] ! p).
                   60 + p * ?w \<le> x \<and> x \<le> 60 + (p + 1) * ?w \<and> x \<le> 95"
      by simp
    from run vals srt lst low len none show ?thesis by blast
  next
    case False
    have "1 + length ?ls \<le> Suc (max 1 (length ?ls))" by simp
    from convert_phases_progress [OF assms(2) le_refl this, of delete_sources successful s1]
    obtain s2 groups
      where phases: "convert_phases h delete_sources (length ?ls) (enumerate 1 ?ls) successful s1
                       = (Returns (), s2)"
        and pre: "events s2 = events s1 @ logged s1 s2"
        and vs: "progress_values (logged s1 s2) = concat groups"
        and len: "length groups = length ?ls"
        and each: "\<forall>p < length groups. sorted (groups ! p)
                     \<and> (\<forall>x \<in> set (groups ! p).
                            60 + (1 + p - 1) * ?w \<le> x \<and> x \<le> 60 + (1 + p) * ?w \<and> x \<le> 95)"
      by blast
    let ?s' = "emit (Progress 100) s2"
    have run: "run_download_job h chapters threaded concurrency convert_mode delete_sources s
                 = (Returns successful, ?s')"
      by (simp only: run_download_job_def assms(1,4) if_False stage prod.case False phases
          outcome.case)
    have vals: "progress_values (events ?s') = progress_values (events s1) @ concat groups @ [100]"
      by (simp add: pre vs progress_values_Cons)
    have bounds: "\<forall>p < length groups. \<forall>x \<in> set (groups ! p).
                    60 + p * ?w \<le> x \<and> x \<le> 60 + (p + 1) * ?w \<and> x \<le> 95"
      using each by simp
    have "\<forall>p < length groups. sorted (groups ! p)
            \<and> (\<forall>x \<in> set (groups ! p). 60 + (1 + p - 1) * ?w \<le> x \<and> x \<le> 60 + (1 + p) * ?w)"
      using each by blast
    from sorted_concat_groups [OF this le_refl]
    have mid: "sorted (concat groups)" "\<forall>x \<in> set (concat groups). 60 \<le> x"
      by simp_all
    have small: "\<forall>p < length groups. \<forall>x \<in> set (groups ! p). x \<le> 95"
      using bounds by blast
    have top: "\<forall>x \<in> set (concat groups). x \<le> 95"
    proof
      fix x assume "x \<in> set (concat groups)"
      with small show "x \<le> 95" by (rule concat_groups_bound)
    qed
    have "sorted (progress_values es @ concat groups @ [100])"
      using es(2,3) mid top by (fastforce simp: sorted_append)
    then have srt: "sorted (progress_values (events ?s'))" unfolding vals F .
    have lst: "last (progress_values (events ?s')) = 100" unfolding vals by simp
    have len': "length groups = (if successful = [] then 0 else length (conversions convert_mode))"
      using False len by simp
    from run vals srt lst low len' bounds show ?thesis by blast
  qed
qed

text \<open>
  C7 at a sequential job over two chapters. The page of the first chapter cannot be
  fetched: its download returns without success, and the progress value 30 is emitted.
  The directory of the second chapter, \<^verbatim>\<open>downloads/Chapter 2- Who?\<close>, cannot be created:
  \<^verbatim>\<open>os.makedirs\<close> runs before the \<^verbatim>\<open>try\<close> block of the download, so the download raises, the
  loop of the job does not catch it, and the job ends with this exception. The progress
  values of the job are 30 alone: 100 is never emitted.
\<close>

theorem progress_sequence_aborted:
  "fst (download_chapter_with_selenium no_directory_world ''/title/1/c3'' ''Chapter 3'' 1
          (\<lambda>tasks. tasks) Map.empty)
     = Returns (''downloads/Chapter 3'', False)
   \<and> fst (download_chapter_with_selenium no_directory_world ''/title/1/c2'' ''Chapter 2: Who?'' 1
            (\<lambda>tasks. tasks) Map.empty)
     = Raises OSError
   \<and> run_download_job aborting_host aborting_chapters False 5 ''both'' True
        \<lparr> dirs = Map.empty, events = [] \<rparr>
     = (Raises OSError,
        \<lparr> dirs = Map.empty,
          events = [Log_downloading 2, Log_chapter 1 2 ''Chapter 3'', Progress 30,
                    Log_chapter 2 2 ''Chapter 2: Who?''] \<rparr>)
   \<and> progress_values (events (snd (run_download_job aborting_host aborting_chapters False 5
                                      ''both'' True \<lparr> dirs = Map.empty, events = [] \<rparr>)))
     = [30]"
proof -
  let ?w = "no_directory_world"
  let ?s = "\<lparr> dirs = Map.empty, events = [] \<rparr>"
  have d3: "chapter_directory ''Chapter 3'' = ''downloads/Chapter 3''"
    and d2: "chapter_directory ''Chapter 2: Who?'' = ''downloads/Chapter 2- Who?''"
    by (simp_all add: chapter_directory_def replace_chr_def path_join_def)
  have mk: "makedirs ?w ''downloads/Chapter 3'' = Returns ()"
    "makedirs ?w ''downloads/Chapter 2- Who?'' = Raises OSError"
    by (simp_all add: no_directory_world_def sample_world_def)
  have env: "initialize_browser ?w = Returns ()" "driver_quit ?w = Returns ()"
    "browse ?w (urljoin ?w ''https://mangapark.net'' ''/title/1/c3'') = Raises WebDriverException"
    by (simp_all add: no_directory_world_def sample_world_def)
  have c3: "download_chapter_with_selenium ?w ''/title/1/c3'' ''Chapter 3'' k (\<lambda>tasks. tasks)
              Map.empty = (Returns (''downloads/Chapter 3'', False), Map.empty)" for k
    by (simp add: download_chapter_with_selenium_def download_chapter_except_def
        download_chapter_try_def d3 mk env Let_def)
  have c2: "download_chapter_with_selenium ?w ''/title/1/c2'' ''Chapter 2: Who?'' k
              (\<lambda>tasks. tasks) Map.empty = (Raises OSError, Map.empty)" for k
    by (simp add: download_chapter_with_selenium_def d2 mk Let_def)
  have dl: "download_chapter aborting_host ''/title/1/c3'' ''Chapter 3'' k ds
              = (Returns (''downloads/Chapter 3'', False), ds)"
    "download_chapter aborting_host ''/title/1/c2'' ''Chapter 2: Who?'' k ds = (Raises OSError, ds)"
    for k ds
    by (simp_all add: aborting_host_def c3 c2)
  have host: "os_makedirs aborting_host path = Returns ()"
    "int_scale aborting_host i n k = (i * k) div n" for path i n k
    by (simp_all add: aborting_host_def sample_host_def exact_scale_def)
  have half: "(60::nat) div Suc (Suc 0) = 30"
    unfolding numeral_2_eq_2 [symmetric] by simp
  have job: "run_download_job aborting_host aborting_chapters False 5 ''both'' True ?s
               = (Raises OSError,
                  \<lparr> dirs = Map.empty,
                    events = [Log_downloading 2, Log_chapter 1 2 ''Chapter 3'', Progress 30,
                              Log_chapter 2 2 ''Chapter 2: Who?''] \<rparr>)"
    by (simp add: run_download_job_def aborting_chapters_def host half download_stage_def
        enumerate_simps dl emit_def Let_def)
  have "progress_values [Log_downloading 2, Log_chapter 1 2 ''Chapter 3'', Progress 30,
                         Log_chapter 2 2 ''Chapter 2: Who?''] = [30]"
    by (simp add: progress_values_def)
  with job c3 c2 show ?thesis by simp
qed

section \<open>Cleanup after the archive and the document phase\<close>

lemma download_stage_events:
  "\<exists>es. events (snd (download_stage h chapters threaded concurrency s)) = events s @ es
       \<and> (\<forall>e \<in> set es. (\<exists>a b c. e = Log_chapter a b c) \<or> (\<exists>v. e = Progress v))"
proof (cases threaded)
  case True
  then have "events (snd (download_stage h chapters threaded concurrency s)) = events s @ []"
    by (simp add: download_stage_def split: prod.split)
  then show ?thesis by (intro exI [of _ "[]"]) simp
next
  case False
  from download_sequential_log [of h "length chapters" "enumerate 1 chapters" "[]" s] False
  show ?thesis
    by (simp only: download_stage_def if_False) blast
qed

lemma convert_chapters_log:
  "convert_chapters h delete_sources n phase l total_count tasks (emit (Log_running l) s)
     = (Returns (), fold (convert_step h delete_sources n phase l total_count) tasks
                      (emit (Log_running l) s))"
  "events (fold (convert_step h delete_sources n phase l total_count) tasks (emit (Log_running l) s))
     = events s @ Log_running l
         # logged (emit (Log_running l) s)
             (fold (convert_step h delete_sources n phase l total_count) tasks
                (emit (Log_running l) s))"
  "logged s (fold (convert_step h delete_sources n phase l total_count) tasks
               (emit (Log_running l) s))
     = Log_running l
         # logged (emit (Log_running l) s)
             (fold (convert_step h delete_sources n phase l total_count) tasks
                (emit (Log_running l) s))"
proof -
  let ?s0 = "emit (Log_running l) s"
  let ?s1 = "fold (convert_step h delete_sources n phase l total_count) tasks ?s0"
  show "convert_chapters h delete_sources n phase l total_count tasks ?s0 = (Returns (), ?s1)"
    by (rule convert_chapters_fold)
  have "events ?s1 = events ?s0 @ logged ?s0 ?s1" by (rule convert_fold_prefix)
  then show ev: "events ?s1 = events s @ Log_running l # logged ?s0 ?s1" by simp
  then show "logged s ?s1 = Log_running l # logged ?s0 ?s1" by (rule logged_eq)
qed

lemma cleanup_delete:
  assumes "dirs s chapter_dir = Some names"
  shows "cleanup h True chapter_dir chapter_title s
           = (case rmtree h chapter_dir names of
                None \<Rightarrow> emit (Log_removed chapter_dir chapter_title)
                          (s\<lparr>dirs := (dirs s)(chapter_dir := None)\<rparr>)
              | Some left \<Rightarrow> emit (Log_cleanup_failed chapter_dir chapter_title)
                               (s\<lparr>dirs := (dirs s)(chapter_dir \<mapsto> left)\<rparr>))"
  using assms
  by (simp add: cleanup_def os_path_isdir_def shutil_rmtree_def split: option.split)

text \<open>One round of the archive phase with the deletion of sources.\<close>

lemma cbz_round:
  "convert_chapters h True n phase CBZ total_count ((idx, d, t) # rest) s
     = convert_chapters h True n phase CBZ total_count rest
         (convert_step h True n phase CBZ total_count (idx, d, t) s)"
  "create_cbz h (dirs s) d t = Returns None
     \<Longrightarrow> events (convert_step h True n phase CBZ total_count (idx, d, t) s)
           = events s @ [Log_failed CBZ t, Progress (phase_progress h n phase total_count idx)]"
  "create_cbz h (dirs s) d t = Returns (Some path)
     \<Longrightarrow> path = d @ ''.cbz''
         \<and> (\<exists>names. dirs s d = Some names
               \<and> (rmtree h d names = None
                    \<longrightarrow> events (convert_step h True n phase CBZ total_count (idx, d, t) s)
                          = events s @ [Log_ready CBZ path, Log_removed d t,
                                        Progress (phase_progress h n phase total_count idx)]
                        \<and> dirs (convert_step h True n phase CBZ total_count (idx, d, t) s)
                            = (dirs s)(d := None))
               \<and> (rmtree h d names \<noteq> None
                    \<longrightarrow> events (convert_step h True n phase CBZ total_count (idx, d, t) s)
                          = events s @ [Log_ready CBZ path, Log_cleanup_failed d t,
                                        Progress (phase_progress h n phase total_count idx)]))"
proof -
  let ?step = "convert_step h True n phase CBZ total_count (idx, d, t) s"
  let ?p = "Progress (phase_progress h n phase total_count idx)"
  obtain out where out: "create_cbz h (dirs s) d t = Returns out"
    using create_cbz_returns by blast
  show "convert_chapters h True n phase CBZ total_count ((idx, d, t) # rest) s
          = convert_chapters h True n phase CBZ total_count rest ?step"
    by (simp add: convert_step_def phase_progress_def converter_def out Let_def)
  show "events ?step = events s @ [Log_failed CBZ t, ?p]"
    if "create_cbz h (dirs s) d t = Returns None"
    using that by (simp add: convert_step_def converter_def)
  show "path = d @ ''.cbz''
         \<and> (\<exists>names. dirs s d = Some names
               \<and> (rmtree h d names = None
                    \<longrightarrow> events ?step = events s @ [Log_ready CBZ path, Log_removed d t, ?p]
                        \<and> dirs ?step = (dirs s)(d := None))
               \<and> (rmtree h d names \<noteq> None
                    \<longrightarrow> events ?step = events s @ [Log_ready CBZ path, Log_cleanup_failed d t, ?p]))"
    if some: "create_cbz h (dirs s) d t = Returns (Some path)"
  proof -
    from some have "converter CBZ h (dirs s) d t = Returns (Some path)"
      by (simp add: converter_def)
    from converter_some [OF this] obtain names
      where names: "dirs s d = Some names" and path: "path = d @ ''.cbz''"
      by auto
    let ?s = "emit (Log_ready CBZ path) s"
    have step: "?step = emit ?p (cleanup h True d t ?s)"
      using some by (simp add: convert_step_def converter_def)
    have "dirs ?s d = Some names" using names by simp
    note clean = cleanup_delete [OF this, of h t]
    have removed: "events ?step = events s @ [Log_ready CBZ path, Log_removed d t, ?p]
                   \<and> dirs ?step = (dirs s)(d := None)"
      if "rmtree h d names = None"
      unfolding step clean using that by simp
    have kept: "events ?step = events s @ [Log_ready CBZ path, Log_cleanup_failed d t, ?p]"
      if "rmtree h d names \<noteq> None"
      unfolding step clean using that by auto
    from removed
    have r: "rmtree h d names = None
               \<longrightarrow> events ?step = events s @ [Log_ready CBZ path, Log_removed d t, ?p]
                   \<and> dirs ?step = (dirs s)(d := None)"
      by (rule impI)
    from kept
    have k: "rmtree h d names \<noteq> None
               \<longrightarrow> events ?step = events s @ [Log_ready CBZ path, Log_cleanup_failed d t, ?p]"
      by (rule impI)
    from names r k
    have "dirs s d = Some names
          \<and> (rmtree h d names = None
                \<longrightarrow> events ?step = events s @ [Log_ready CBZ path, Log_removed d t, ?p]
                    \<and> dirs ?step = (dirs s)(d := None))
          \<and> (rmtree h d names \<noteq> None
                \<longrightarrow> events ?step = events s @ [Log_ready CBZ path, Log_cleanup_failed d t, ?p])"
      by (intro conjI)
    then have "\<exists>names. dirs s d = Some names
          \<and> (rmtree h d names = None
                \<longrightarrow> events ?step = events s @ [Log_ready CBZ path, Log_removed d t, ?p]
                    \<and> dirs ?step = (dirs s)(d := None))
          \<and> (rmtree h d names \<noteq> None
                \<longrightarrow> events ?step = events s @ [Log_ready CBZ path, Log_cleanup_failed d t, ?p])"
      by (rule exI)
    with path show ?thesis by (rule conjI)
  qed
qed

lemma convert_step_cbz_block:
  "logged s (convert_step h True n phase CBZ total_count (idx, d, t) s)
     = [Log_failed CBZ t, Progress (phase_progress h n phase total_count idx)]
   \<or> logged s (convert_step h True n phase CBZ total_count (idx, d, t) s)
       = [Log_ready CBZ (d @ ''.cbz''), Log_removed d t,
          Progress (phase_progress h n phase total_count idx)]
   \<or> logged s (convert_step h True n phase CBZ total_count (idx, d, t) s)
       = [Log_ready CBZ (d @ ''.cbz''), Log_cleanup_failed d t,
          Progress (phase_progress h n phase total_count idx)]
     \<and> (\<exists>names. rmtree h d names \<noteq> None)"
proof -
  obtain out where out: "create_cbz h (dirs s) d t = Returns out"
    using create_cbz_returns by blast
  show ?thesis
  proof (cases out)
    case None
    with out have "create_cbz h (dirs s) d t = Returns None" by simp
    from cbz_round(2) [OF this, of n phase total_count idx] show ?thesis
      by (intro disjI1 logged_eq)
  next
    case (Some path)
    with out have "create_cbz h (dirs s) d t = Returns (Some path)" by simp
    note round = cbz_round(3) [OF this, of n phase total_count idx]
    from round have path: "path = d @ ''.cbz''" by (rule conjunct1)
    from round [THEN conjunct2] obtain names
      where both: "(rmtree h d names = None
                     \<longrightarrow> events (convert_step h True n phase CBZ total_count (idx, d, t) s)
                           = events s @ [Log_ready CBZ path, Log_removed d t,
                                         Progress (phase_progress h n phase total_count idx)]
                         \<and> dirs (convert_step h True n phase CBZ total_count (idx, d, t) s)
                             = (dirs s)(d := None))
                  \<and> (rmtree h d names \<noteq> None
                     \<longrightarrow> events (convert_step h True n phase CBZ total_count (idx, d, t) s)
                           = events s @ [Log_ready CBZ path, Log_cleanup_failed d t,
                                         Progress (phase_progress h n phase total_count idx)])"
      by (elim exE conjE) (rule that, rule conjI)
    have removed: "events (convert_step h True n phase CBZ total_count (idx, d, t) s)
                     = events s @ [Log_ready CBZ path, Log_removed d t,
                                   Progress (phase_progress h n phase total_count idx)]"
      if "rmtree h d names = None"
      using both [THEN conjunct1, rule_format, OF that] by (rule conjunct1)
    have kept: "events (convert_step h True n phase CBZ total_count (idx, d, t) s)
                  = events s @ [Log_ready CBZ path, Log_cleanup_failed d t,
                                Progress (phase_progress h n phase total_count idx)]"
      if "rmtree h d names \<noteq> None"
      using both [THEN conjunct2, rule_format, OF that] .
    show ?thesis
    proof (cases "rmtree h d names = None")
      case True
      from removed [OF this] show ?thesis
        unfolding path by (intro disjI2 disjI1 logged_eq)
    next
      case False
      from kept [OF this] have "logged s (convert_step h True n phase CBZ total_count (idx, d, t) s)
                                  = [Log_ready CBZ (d @ ''.cbz''), Log_cleanup_failed d t,
                                     Progress (phase_progress h n phase total_count idx)]"
        unfolding path by (rule logged_eq)
      with False show ?thesis by blast
    qed
  qed
qed

lemma convert_fold_cbz_blocks:
  "\<exists>blocks. logged s (fold (convert_step h True n phase CBZ total_count) tasks s) = concat blocks
     \<and> list_all2
          (\<lambda>task block. case task of (idx, d, t) \<Rightarrow>
             block = [Log_failed CBZ t, Progress (phase_progress h n phase total_count idx)]
           \<or> block = [Log_ready CBZ (d @ ''.cbz''), Log_removed d t,
                       Progress (phase_progress h n phase total_count idx)]
           \<or> block = [Log_ready CBZ (d @ ''.cbz''), Log_cleanup_failed d t,
                       Progress (phase_progress h n phase total_count idx)]
             \<and> (\<exists>names. rmtree h d names \<noteq> None))
          tasks blocks"
proof (induction tasks arbitrary: s)
  case Nil
  have "logged s (fold (convert_step h True n phase CBZ total_count) [] s) = concat []"
    by (simp add: logged_def)
  then show ?case by (intro exI [of _ "[]"]) simp
next
  case (Cons task tasks)
  obtain idx d t where task: "task = (idx, d, t)" by (cases task)
  let ?f = "convert_step h True n phase CBZ total_count"
  let ?X = "logged s (?f task s)"
  from Cons.IH [of "?f task s"] obtain blocks
    where rest: "logged (?f task s) (fold ?f tasks (?f task s)) = concat blocks"
      and each: "list_all2
          (\<lambda>task block. case task of (idx, d, t) \<Rightarrow>
             block = [Log_failed CBZ t, Progress (phase_progress h n phase total_count idx)]
           \<or> block = [Log_ready CBZ (d @ ''.cbz''), Log_removed d t,
                       Progress (phase_progress h n phase total_count idx)]
           \<or> block = [Log_ready CBZ (d @ ''.cbz''), Log_cleanup_failed d t,
                       Progress (phase_progress h n phase total_count idx)]
             \<and> (\<exists>names. rmtree h d names \<noteq> None))
          tasks blocks"
    by blast
  have "logged s (fold ?f (task # tasks) s) = concat (?X # blocks)"
    by (simp add: convert_fold_Cons rest)
  moreover have "list_all2
          (\<lambda>task block. case task of (idx, d, t) \<Rightarrow>
             block = [Log_failed CBZ t, Progress (phase_progress h n phase total_count idx)]
           \<or> block = [Log_ready CBZ (d @ ''.cbz''), Log_removed d t,
                       Progress (phase_progress h n phase total_count idx)]
           \<or> block = [Log_ready CBZ (d @ ''.cbz''), Log_cleanup_failed d t,
                       Progress (phase_progress h n phase total_count idx)]
             \<and> (\<exists>names. rmtree h d names \<noteq> None))
          (task # tasks) (?X # blocks)"
    using each convert_step_cbz_block [of s h n phase total_count idx d t]
    by (simp add: task)
  ultimately show ?case by blast
qed

text \<open>
  C10. Run the job with convert mode \<^verbatim>\<open>both\<close> and with the deletion of sources, from an
  empty log, and let its download stage return a non-empty list of chapters. Both phases
  return and the job ends with the progress value 100; the log of the archive phase comes
  first and the log of the document phase after it. In a round of the archive phase in
  which the archive converter returns a path, the line that the archive is ready is
  followed at once by the removal of the chapter directory: by the line that it is
  removed, with the directory gone, when the removal returns, and by the line that the
  cleanup failed when it raises. So the log of the archive phase is made of one block for
  each chapter, in order: the archive failed; or the archive is ready and the directory
  removed; or the archive is ready and the cleanup failed. Take a chapter whose directory
  the archive phase removed: the directory does not exist when the archive phase ends,
  before the document phase begins; the document phase logs that it skips the chapter; and
  the log of the whole job has no line that the document of this chapter is ready.
\<close>

theorem cbz_cleanup_precludes_pdf:
  assumes "chapters \<noteq> []" and "events s = []"
    and "os_makedirs h ''downloads'' = Returns ()"
    and "download_stage h chapters threaded concurrency
           (emit (Log_downloading (length chapters)) s) = (Returns successful, s1)"
    and "successful \<noteq> []"
  shows "let n = length successful;
             tasks = enumerate 1 successful;
             cbz_phase = convert_chapters h True 2 1 CBZ n tasks (emit (Log_running CBZ) s1);
             s2 = snd cbz_phase;
             pdf_phase = convert_chapters h True 2 2 PDF n tasks (emit (Log_running PDF) s2);
             s3 = snd pdf_phase;
             job = run_download_job h chapters threaded concurrency ''both'' True s
         in fst cbz_phase = Returns () \<and> fst pdf_phase = Returns ()
          \<and> job = (Returns successful, emit (Progress 100) s3)
          \<and> events s3 = events s1 @ logged s1 s2 @ logged s2 s3
          \<and> (\<exists>rest. logged s2 s3 = Log_running PDF # rest)
          \<and> (\<forall>s0 idx d t rest path.
                create_cbz h (dirs s0) d t = Returns (Some path)
                \<longrightarrow> path = d @ ''.cbz''
                    \<and> (\<exists>names s'.
                          dirs s0 d = Some names
                          \<and> convert_chapters h True 2 1 CBZ n ((idx, d, t) # rest) s0
                              = convert_chapters h True 2 1 CBZ n rest s'
                          \<and> (rmtree h d names = None
                                \<longrightarrow> events s'
                                      = events s0 @ [Log_ready CBZ path, Log_removed d t,
                                                     Progress (phase_progress h 2 1 n idx)]
                                    \<and> dirs s' = (dirs s0)(d := None))
                          \<and> (rmtree h d names \<noteq> None
                                \<longrightarrow> events s'
                                      = events s0 @ [Log_ready CBZ path, Log_cleanup_failed d t,
                                                     Progress (phase_progress h 2 1 n idx)])))
          \<and> (\<exists>blocks. logged s1 s2 = Log_running CBZ # concat blocks
                \<and> list_all2
                     (\<lambda>task block. case task of (idx, d, t) \<Rightarrow>
                        block = [Log_failed CBZ t, Progress (phase_progress h 2 1 n idx)]
                      \<or> block = [Log_ready CBZ (d @ ''.cbz''), Log_removed d t,
                                  Progress (phase_progress h 2 1 n idx)]
                      \<or> block = [Log_ready CBZ (d @ ''.cbz''), Log_cleanup_failed d t,
                                  Progress (phase_progress h 2 1 n idx)]
                        \<and> (\<exists>names. rmtree h d names \<noteq> None))
                     tasks blocks)
          \<and> (\<forall>(d, t) \<in> set successful.
                Log_removed d t \<in> set (logged s1 s2) \<longrightarrow>
                  (\<exists>before after. logged s1 s2
                      = before @ Log_ready CBZ (d @ ''.cbz'') # Log_removed d t # after)
                  \<and> dirs s2 d = None
                  \<and> Log_skipping d t \<in> set (logged s2 s3)
                  \<and> Log_ready PDF (d @ ''.pdf'') \<notin> set (events (snd job)))"
proof -
  let ?s0 = "emit (Log_downloading (length chapters)) s"
  let ?n = "length successful"
  let ?tasks = "enumerate 1 successful"
  let ?fc = "convert_step h True 2 1 CBZ ?n"
  let ?fp = "convert_step h True 2 2 PDF ?n"
  let ?c0 = "emit (Log_running CBZ) s1"
  let ?s2 = "fold ?fc ?tasks ?c0"
  let ?p0 = "emit (Log_running PDF) ?s2"
  let ?s3 = "fold ?fp ?tasks ?p0"
  let ?job = "run_download_job h chapters threaded concurrency ''both'' True s"
  have cbz: "convert_chapters h True 2 1 CBZ ?n ?tasks ?c0 = (Returns (), ?s2)"
    by (rule convert_chapters_log)
  have pdf: "convert_chapters h True 2 2 PDF ?n ?tasks ?p0 = (Returns (), ?s3)"
    by (rule convert_chapters_log)
  have both: "conversions ''both'' = [CBZ, PDF]"
    by (simp add: conversions_def)
  have two: "enumerate 1 [CBZ, PDF] = [(1, CBZ), (2, PDF)]" "length [CBZ, PDF] = 2"
    by (simp_all add: enumerate_simps)
  have phases: "convert_phases h True 2 (enumerate 1 [CBZ, PDF]) successful s1 = (Returns (), ?s3)"
    by (simp only: two convert_phases.simps cbz pdf prod.case outcome.case)
  have job: "?job = (Returns successful, emit (Progress 100) ?s3)"
    by (simp only: run_download_job_def assms if_False both two(2) phases
        prod.case outcome.case)
  obtain es where es: "events s1 = events ?s0 @ es"
    "\<forall>e \<in> set es. (\<exists>a b c. e = Log_chapter a b c) \<or> (\<exists>v. e = Progress v)"
    using download_stage_events [of h chapters threaded concurrency ?s0]
    unfolding assms(4) snd_conv by blast
  have ev2: "events ?s2 = events s1 @ Log_running CBZ # logged ?c0 ?s2"
    and lg2: "logged s1 ?s2 = Log_running CBZ # logged ?c0 ?s2"
    by (rule convert_chapters_log)+
  have ev3: "events ?s3 = events ?s2 @ Log_running PDF # logged ?p0 ?s3"
    and lg3: "logged ?s2 ?s3 = Log_running PDF # logged ?p0 ?s3"
    by (rule convert_chapters_log)+
  have order: "events ?s3 = events s1 @ logged s1 ?s2 @ logged ?s2 ?s3"
    unfolding ev3 ev2 lg2 lg3 by simp
  have starts: "\<exists>rest. logged ?s2 ?s3 = Log_running PDF # rest"
    unfolding lg3 by (rule exI) (rule refl)
  have round: "path = d @ ''.cbz''
                \<and> (\<exists>names s'.
                      dirs s0 d = Some names
                      \<and> convert_chapters h True 2 1 CBZ ?n ((idx, d, t) # rest) s0
                          = convert_chapters h True 2 1 CBZ ?n rest s'
                      \<and> (rmtree h d names = None
                            \<longrightarrow> events s' = events s0 @ [Log_ready CBZ path, Log_removed d t,
                                                        Progress (phase_progress h 2 1 ?n idx)]
                                \<and> dirs s' = (dirs s0)(d := None))
                      \<and> (rmtree h d names \<noteq> None
                            \<longrightarrow> events s' = events s0 @ [Log_ready CBZ path,
                                                        Log_cleanup_failed d t,
                                                        Progress (phase_progress h 2 1 ?n idx)]))"
    if some: "create_cbz h (dirs s0) d t = Returns (Some path)" for s0 idx d t rest path
  proof -
    let ?s' = "convert_step h True 2 1 CBZ ?n (idx, d, t) s0"
    note r = cbz_round(3) [OF some, of 2 1 ?n idx]
    from r have path: "path = d @ ''.cbz''" by (rule conjunct1)
    from r [THEN conjunct2] obtain names
      where names: "dirs s0 d = Some names"
        and after: "(rmtree h d names = None
                       \<longrightarrow> events ?s' = events s0 @ [Log_ready CBZ path, Log_removed d t,
                                                    Progress (phase_progress h 2 1 ?n idx)]
                           \<and> dirs ?s' = (dirs s0)(d := None))
                    \<and> (rmtree h d names \<noteq> None
                       \<longrightarrow> events ?s' = events s0 @ [Log_ready CBZ path, Log_cleanup_failed d t,
                                                    Progress (phase_progress h 2 1 ?n idx)])"
      by (elim exE conjE) (rule that, assumption, rule conjI)
    have next_round: "convert_chapters h True 2 1 CBZ ?n ((idx, d, t) # rest) s0
                        = convert_chapters h True 2 1 CBZ ?n rest ?s'"
      by (rule cbz_round(1))
    from after
    have a1: "rmtree h d names = None
                \<longrightarrow> events ?s' = events s0 @ [Log_ready CBZ path, Log_removed d t,
                                             Progress (phase_progress h 2 1 ?n idx)]
                    \<and> dirs ?s' = (dirs s0)(d := None)"
      by (rule conjunct1)
    from after
    have a2: "rmtree h d names \<noteq> None
                \<longrightarrow> events ?s' = events s0 @ [Log_ready CBZ path, Log_cleanup_failed d t,
                                             Progress (phase_progress h 2 1 ?n idx)]"
      by (rule conjunct2)
    from names next_round a1 a2
    have "dirs s0 d = Some names
          \<and> convert_chapters h True 2 1 CBZ ?n ((idx, d, t) # rest) s0
              = convert_chapters h True 2 1 CBZ ?n rest ?s'
          \<and> (rmtree h d names = None
                \<longrightarrow> events ?s' = events s0 @ [Log_ready CBZ path, Log_removed d t,
                                             Progress (phase_progress h 2 1 ?n idx)]
                    \<and> dirs ?s' = (dirs s0)(d := None))
          \<and> (rmtree h d names \<noteq> None
                \<longrightarrow> events ?s' = events s0 @ [Log_ready CBZ path, Log_cleanup_failed d t,
                                             Progress (phase_progress h 2 1 ?n idx)])"
      by (intro conjI)
    then have "\<exists>names s'.
                 dirs s0 d = Some names
                 \<and> convert_chapters h True 2 1 CBZ ?n ((idx, d, t) # rest) s0
                     = convert_chapters h True 2 1 CBZ ?n rest s'
                 \<and> (rmtree h d names = None
                       \<longrightarrow> events s' = events s0 @ [Log_ready CBZ path, Log_removed d t,
                                                   Progress (phase_progress h 2 1 ?n idx)]
                           \<and> dirs s' = (dirs s0)(d := None))
                 \<and> (rmtree h d names \<noteq> None
                       \<longrightarrow> events s' = events s0 @ [Log_ready CBZ path, Log_cleanup_failed d t,
                                                   Progress (phase_progress h 2 1 ?n idx)])"
      by (intro exI)
    with path show ?thesis by (rule conjI)
  qed
  from convert_fold_cbz_blocks [of ?c0 h 2 1 ?n ?tasks] obtain blocks
    where blocks: "logged ?c0 ?s2 = concat blocks"
      and each: "list_all2
                   (\<lambda>task block. case task of (idx, d, t) \<Rightarrow>
                      block = [Log_failed CBZ t, Progress (phase_progress h 2 1 ?n idx)]
                    \<or> block = [Log_ready CBZ (d @ ''.cbz''), Log_removed d t,
                                Progress (phase_progress h 2 1 ?n idx)]
                    \<or> block = [Log_ready CBZ (d @ ''.cbz''), Log_cleanup_failed d t,
                                Progress (phase_progress h 2 1 ?n idx)]
                      \<and> (\<exists>names. rmtree h d names \<noteq> None))
                   ?tasks blocks"
    by (elim exE conjE)
  have "logged s1 ?s2 = Log_running CBZ # concat blocks"
    unfolding lg2 blocks by (rule refl)
  with each
  have shape: "\<exists>blocks. logged s1 ?s2 = Log_running CBZ # concat blocks
                \<and> list_all2
                     (\<lambda>task block. case task of (idx, d, t) \<Rightarrow>
                        block = [Log_failed CBZ t, Progress (phase_progress h 2 1 ?n idx)]
                      \<or> block = [Log_ready CBZ (d @ ''.cbz''), Log_removed d t,
                                  Progress (phase_progress h 2 1 ?n idx)]
                      \<or> block = [Log_ready CBZ (d @ ''.cbz''), Log_cleanup_failed d t,
                                  Progress (phase_progress h 2 1 ?n idx)]
                        \<and> (\<exists>names. rmtree h d names \<noteq> None))
                     ?tasks blocks"
    by (intro exI [of _ blocks] conjI)
  have main: "(\<exists>before after. logged s1 ?s2
                   = before @ Log_ready CBZ (d @ ''.cbz'') # Log_removed d t # after)
              \<and> dirs ?s2 d = None
              \<and> Log_skipping d t \<in> set (logged ?s2 ?s3)
              \<and> Log_ready PDF (d @ ''.pdf'') \<notin> set (events (snd ?job))"
    if member: "(d, t) \<in> set successful" and removed: "Log_removed d t \<in> set (logged s1 ?s2)"
    for d t
  proof -
    from removed have "Log_removed d t \<in> set (logged ?c0 ?s2)"
      unfolding lg2 by simp
    from convert_fold_removed [OF this] obtain before after
      where gone: "dirs ?s2 d = None"
        and adj: "logged ?c0 ?s2
                    = before @ Log_ready CBZ (d @ archive_suffix CBZ) # Log_removed d t # after"
      by blast
    have 1: "\<exists>before after. logged s1 ?s2
                = before @ Log_ready CBZ (d @ ''.cbz'') # Log_removed d t # after"
    proof (intro exI)
      show "logged s1 ?s2
              = (Log_running CBZ # before) @ Log_ready CBZ (d @ ''.cbz'') # Log_removed d t # after"
        unfolding lg2 adj by (simp add: archive_suffix_def)
    qed
    from member obtain i where i: "i < length successful" "successful ! i = (d, t)"
      unfolding in_set_conv_nth by blast
    have idx: "(Suc i, d, t) \<in> set ?tasks"
      unfolding in_set_enumerate_eq using i by simp
    have "dirs ?p0 d = None" using gone by simp
    with idx have "Log_skipping d t \<in> set (logged ?p0 ?s3)"
      by (rule convert_fold_skipping)
    then have 3: "Log_skipping d t \<in> set (logged ?s2 ?s3)" unfolding lg3 by simp
    have final: "events (snd ?job) = events ?s3 @ [Progress 100]"
      using job by simp
    have not_cbz: "Log_ready PDF (d @ ''.pdf'') \<notin> set (logged ?c0 ?s2)"
      using convert_fold_ready [of PDF "d @ ''.pdf''" ?c0 h True 2 1 CBZ ?n ?tasks]
      by blast
    have not_pdf: "Log_ready PDF (d @ ''.pdf'') \<notin> set (logged ?p0 ?s3)"
    proof
      assume "Log_ready PDF (d @ ''.pdf'') \<in> set (logged ?p0 ?s3)"
      from convert_fold_ready [OF this] obtain d'
        where "d @ ''.pdf'' = d' @ archive_suffix PDF" "dirs ?p0 d' \<noteq> None"
        by blast
      then have "d' = d" "dirs ?s2 d' \<noteq> None" by (simp_all add: archive_suffix_def)
      with gone show False by simp
    qed
    have not_stage: "Log_ready PDF (d @ ''.pdf'') \<notin> set es"
      using es(2) by blast
    have "events (snd ?job)
            = Log_downloading (length chapters) # es @ Log_running CBZ # logged ?c0 ?s2
              @ Log_running PDF # logged ?p0 ?s3 @ [Progress 100]"
      unfolding final ev3 ev2 es(1) by (simp add: assms(2))
    with not_stage not_cbz not_pdf
    have 4: "Log_ready PDF (d @ ''.pdf'') \<notin> set (events (snd ?job))"
      by simp
    from 1 gone 3 4 show ?thesis by blast
  qed
  have all: "\<forall>(d, t) \<in> set successful.
               Log_removed d t \<in> set (logged s1 ?s2) \<longrightarrow>
                 (\<exists>before after. logged s1 ?s2
                     = before @ Log_ready CBZ (d @ ''.cbz'') # Log_removed d t # after)
                 \<and> dirs ?s2 d = None
                 \<and> Log_skipping d t \<in> set (logged ?s2 ?s3)
                 \<and> Log_ready PDF (d @ ''.pdf'') \<notin> set (events (snd ?job))"
    using main by blast
  have rounds: "\<forall>s0 idx d t rest path.
                create_cbz h (dirs s0) d t = Returns (Some path)
                \<longrightarrow> path = d @ ''.cbz''
                    \<and> (\<exists>names s'.
                          dirs s0 d = Some names
                          \<and> convert_chapters h True 2 1 CBZ ?n ((idx, d, t) # rest) s0
                              = convert_chapters h True 2 1 CBZ ?n rest s'
                          \<and> (rmtree h d names = None
                                \<longrightarrow> events s'
                                      = events s0 @ [Log_ready CBZ path, Log_removed d t,
                                                     Progress (phase_progress h 2 1 ?n idx)]
                                    \<and> dirs s' = (dirs s0)(d := None))
                          \<and> (rmtree h d names \<noteq> None
                                \<longrightarrow> events s'
                                      = events s0 @ [Log_ready CBZ path, Log_cleanup_failed d t,
                                                     Progress (phase_progress h 2 1 ?n idx)]))"
    by (intro allI impI) (rule round)
  show ?thesis
    unfolding Let_def cbz pdf snd_conv fst_conv
    using job order starts rounds shape all
    by (intro conjI) (simp_all only: simp_thms)
qed

theorem cbz_cleanup_precludes_pdf_witness:
  "let s = \<lparr> dirs = Map.empty, events = [] \<rparr>;
       stage = download_stage sample_host sample_chapters False 5
                 (emit (Log_downloading (length sample_chapters)) s);
       successful = [(''downloads/Chapter 1'', ''Chapter 1''), (''downloads/Chapter 3'', ''Chapter 3'')];
       s1 = snd stage;
       s2 = snd (convert_chapters sample_host True 2 1 CBZ (length successful)
                   (enumerate 1 successful) (emit (Log_running CBZ) s1));
       s3 = snd (convert_chapters sample_host True 2 2 PDF (length successful)
                   (enumerate 1 successful) (emit (Log_running PDF) s2));
       job = run_download_job sample_host sample_chapters False 5 ''both'' True s
   in sample_chapters \<noteq> [] \<and> events s = []
    \<and> os_makedirs sample_host ''downloads'' = Returns ()
    \<and> stage = (Returns successful, s1)
    \<and> fst job = Returns successful
    \<and> Log_removed ''downloads/Chapter 1'' ''Chapter 1'' \<in> set (logged s1 s2)
    \<and> dirs s2 ''downloads/Chapter 1'' = None
    \<and> Log_skipping ''downloads/Chapter 1'' ''Chapter 1'' \<in> set (logged s2 s3)
    \<and> Log_ready PDF (''downloads/Chapter 1'' @ ''.pdf'') \<notin> set (events (snd job))"
proof -
  let ?s = "\<lparr> dirs = Map.empty, events = [] \<rparr>"
  let ?stage = "download_stage sample_host sample_chapters False 5
                  (emit (Log_downloading (length sample_chapters)) ?s)"
  let ?succ = "[(''downloads/Chapter 1'', ''Chapter 1''), (''downloads/Chapter 3'', ''Chapter 3'')]"
  let ?s1 = "snd ?stage"
  let ?s2 = "snd (convert_chapters sample_host True 2 1 CBZ (length ?succ)
                    (enumerate 1 ?succ) (emit (Log_running CBZ) ?s1))"
  have c: "sample_chapters \<noteq> []" by (simp add: sample_chapters_def)
  have e: "events ?s = []" by simp
  have k: "os_makedirs sample_host ''downloads'' = Returns ()"
    by (simp add: sample_host_def)
  have "fst ?stage = Returns ?succ" by code_simp
  then have st: "?stage = (Returns ?succ, ?s1)" by (simp add: prod_eq_iff)
  have n: "?succ \<noteq> []" by simp
  have m: "(''downloads/Chapter 1'', ''Chapter 1'') \<in> set ?succ" by simp
  have r: "Log_removed ''downloads/Chapter 1'' ''Chapter 1'' \<in> set (logged ?s1 ?s2)"
    by code_simp
  note inst = cbz_cleanup_precludes_pdf [OF c e k st n, unfolded Let_def]
  note last = inst [THEN conjunct2, THEN conjunct2, THEN conjunct2, THEN conjunct2,
      THEN conjunct2, THEN conjunct2, THEN conjunct2, THEN bspec, OF m,
      unfolded prod.case, THEN mp, OF r]
  have j: "fst (run_download_job sample_host sample_chapters False 5 ''both'' True ?s)
             = Returns ?succ"
    unfolding inst [THEN conjunct2, THEN conjunct2, THEN conjunct1] by simp
  show ?thesis
    unfolding Let_def using c e k st j r last by (intro conjI) blast+
qed

end
